theory Spec2Isabelle
  imports Main "HOL-Library.Sublist" "HOL-Library.Char_ord" "HOL-Library.List_Lexorder"
begin

section \<open>The editor's extension list (BlockNoteExtensions.ts)\<close>

text \<open>
  The file assembles the list of Tiptap extensions the editor is created with. The
  extensions themselves are objects of third-party libraries; here each one is a
  constructor, carrying the configuration the source passes to \<^verbatim>\<open>configure\<close>.
  Objects the source only passes along (the editor, the DOM attributes, a block's node,
  the Yjs fragment, the collaboration user, a custom cursor renderer) are opaque values
  identified by a number.
\<close>

datatype editor = Editor nat
datatype dom_attributes = DomAttributes nat
datatype node = Node nat
datatype fragment = XmlFragment nat
datatype collab_user = CollabUser string string
datatype awareness = Awareness nat
datatype cursor_renderer = RenderCursor nat

text \<open>A class name looked up in one of the two CSS modules the file imports.\<close>

datatype css_class = BlockStyles string | Styles string

text \<open>
  The collaboration provider has type \<^verbatim>\<open>any\<close>; the source reads it only through
  \<^verbatim>\<open>provider?.awareness\<close> and tests the result for truthiness. \<open>None\<close> as provider is
  \<^verbatim>\<open>null\<close> or \<^verbatim>\<open>undefined\<close>; \<open>None\<close> as awareness is any falsy value.
\<close>

record provider =
  awareness :: "awareness option"

record collaboration_options =
  fragment :: fragment
  user :: collab_user
  provider :: "provider option"
  renderCursor :: "cursor_renderer option"

record block_spec =
  node :: node

record GetExtensionsOptions =
  editor :: editor
  domAttributes :: dom_attributes
  blockSchema :: "(string \<times> block_spec) list"
  collaboration :: "collaboration_options option"

datatype render = DefaultRender | CustomRender cursor_renderer

datatype plugin =
  SideMenuPlugin editor
| FormattingToolbarPlugin editor
| SlashMenuPlugin editor
| HyperlinkToolbarPlugin editor
| ImageToolbarPlugin editor

record placeholder_options =
  emptyNodeClass :: css_class
  hasAnchorClass :: css_class
  isFilterClass :: css_class
  includeChildren :: bool
  showOnlyCurrent :: bool

datatype extension =
  ClipboardTextSerializer | Commands | Editable | FocusEvents | Tabindex
| Gapcursor
| Placeholder placeholder_options
| UniqueID "string list"
| HardBreak
| Text
| Bold | Code | Italic | Strike | Underline | Link
| TextColorMark | TextColorExtension
| BackgroundColorMark | BackgroundColorExtension
| TextAlignmentExtension
| Doc
| BlockContainer dom_attributes
| BlockGroup dom_attributes
| BlockNode node editor dom_attributes
| CustomBlockSerializerExtension
| Dropcursor nat string
| TrailingNode
| Collaboration fragment
| CollaborationCursor collab_user render "provider option"
| History
| Extension_create string "plugin list"

record BlockNoteExtensionGroup =
  group_name :: string
  required :: bool
  extensions :: "extension list"

text \<open>\<^verbatim>\<open>Object.values(opts.blockSchema)\<close>: the block specs, in insertion order.\<close>

definition Object_values :: "(string \<times> 'v) list \<Rightarrow> 'v list" where
  "Object_values obj = map snd obj"

text \<open>The seven groups the array literal \<^verbatim>\<open>ret\<close> starts with.\<close>

definition initial_groups :: "GetExtensionsOptions \<Rightarrow> BlockNoteExtensionGroup list" where
  "initial_groups opts =
    [ \<lparr>group_name = ''Core'', required = True,
       extensions = [ClipboardTextSerializer, Commands, Editable, FocusEvents, Tabindex]\<rparr>,
      \<lparr>group_name = ''DevTools'', required = True,
       extensions = [Gapcursor]\<rparr>,
      \<lparr>group_name = ''DropCursor'', required = True,
       extensions =
         [Placeholder \<lparr>emptyNodeClass = BlockStyles ''isEmpty'',
                       hasAnchorClass = BlockStyles ''hasAnchor'',
                       isFilterClass = BlockStyles ''isFilter'',
                       includeChildren = True,
                       showOnlyCurrent = False\<rparr>,
          UniqueID [''blockContainer''],
          HardBreak]\<rparr>,
      \<lparr>group_name = ''Basics'', required = True,
       extensions = [Text]\<rparr>,
      \<lparr>group_name = ''Marks'', required = False,
       extensions =
         [Bold, Code, Italic, Strike, Underline, Link, TextColorMark, TextColorExtension,
          BackgroundColorMark, BackgroundColorExtension, TextAlignmentExtension]\<rparr>,
      \<lparr>group_name = ''Nodes'', required = True,
       extensions =
         [Doc, BlockContainer (domAttributes opts), BlockGroup (domAttributes opts)]
         @ map (\<lambda>blockSpec. BlockNode (node blockSpec) (editor opts) (domAttributes opts))
               (Object_values (blockSchema opts))
         @ [CustomBlockSerializerExtension]\<rparr>,
      \<lparr>group_name = ''Core'', required = True,
       extensions = [Dropcursor 5 ''#ddeeff'', TrailingNode]\<rparr> ]"

text \<open>
  The group pushed by the \<^verbatim>\<open>if (opts.collaboration)\<close> branch: it starts empty,
  receives \<^verbatim>\<open>Collaboration\<close>, and receives \<^verbatim>\<open>CollaborationCursor\<close> when
  \<^verbatim>\<open>provider?.awareness\<close> is truthy (\<^verbatim>\<open>renderCursor || defaultRender\<close> chooses the
  renderer).
\<close>

definition provider_awareness :: "provider option \<Rightarrow> awareness option" where
  "provider_awareness p = (case p of None \<Rightarrow> None | Some pr \<Rightarrow> awareness pr)"

definition collaboration_group :: "collaboration_options \<Rightarrow> BlockNoteExtensionGroup" where
  "collaboration_group c =
    (let group = \<lparr>group_name = ''Collaboration'', required = True, extensions = []\<rparr>;
         group = group\<lparr>extensions := extensions group @ [Collaboration (fragment c)]\<rparr>;
         group =
           (if provider_awareness (provider c) \<noteq> None
            then group\<lparr>extensions := extensions group @
                   [CollaborationCursor (user c)
                      (case renderCursor c of None \<Rightarrow> DefaultRender | Some r \<Rightarrow> CustomRender r)
                      (provider c)]\<rparr>
            else group)
     in group)"

definition history_group :: BlockNoteExtensionGroup where
  "history_group = \<lparr>group_name = ''History'', required = False, extensions = [History]\<rparr>"

definition editor_group :: "GetExtensionsOptions \<Rightarrow> BlockNoteExtensionGroup" where
  "editor_group opts =
    \<lparr>group_name = ''Editor'', required = True,
     extensions =
       [Extension_create ''BlockNoteUIExtension''
          [SideMenuPlugin (editor opts), FormattingToolbarPlugin (editor opts),
           SlashMenuPlugin (editor opts), HyperlinkToolbarPlugin (editor opts),
           ImageToolbarPlugin (editor opts)]]\<rparr>"

definition getBlockNoteExtensionGroups ::
    "GetExtensionsOptions \<Rightarrow> BlockNoteExtensionGroup list" where
  "getBlockNoteExtensionGroups opts =
    (let ret = initial_groups opts;
         ret = (case collaboration opts of
                  Some c \<Rightarrow> ret @ [collaboration_group c]
                | None \<Rightarrow> ret @ [history_group]);
         ret = ret @ [editor_group opts]
     in ret)"

text \<open>\<^verbatim>\<open>groups.flatMap((group) => group.extensions)\<close>\<close>

definition getBlockNoteExtensions :: "GetExtensionsOptions \<Rightarrow> extension list" where
  "getBlockNoteExtensions opts = concat (map extensions (getBlockNoteExtensionGroups opts))"

text \<open>The extensions a group list holds; the three predicates name an extension by its kind.\<close>

definition group_extensions :: "BlockNoteExtensionGroup list \<Rightarrow> extension set" where
  "group_extensions gs = set (concat (map extensions gs))"

fun is_Collaboration :: "extension \<Rightarrow> bool" where
  "is_Collaboration (Collaboration _) = True"
| "is_Collaboration _ = False"

fun is_CollaborationCursor :: "extension \<Rightarrow> bool" where
  "is_CollaborationCursor (CollaborationCursor _ _ _) = True"
| "is_CollaborationCursor _ = False"

fun is_BlockNoteUIExtension :: "extension \<Rightarrow> bool" where
  "is_BlockNoteUIExtension (Extension_create name _) = (name = ''BlockNoteUIExtension'')"
| "is_BlockNoteUIExtension _ = False"

section \<open>The release script (ygg/release.mjs)\<close>

text \<open>
  The script talks to the outside world in two ways: it spawns processes (\<^verbatim>\<open>npm\<close>,
  \<^verbatim>\<open>git\<close>) and it reads and writes the \<^verbatim>\<open>package.json\<close> of each workspace package.
  The model threads a \<open>world\<close> through every function: the files on disk, the trace of
  process spawns and file writes in the order they are issued, and the script's one
  mutable variable, the map \<^verbatim>\<open>packagesToRelease\<close>. What the outside world answers is
  read from an \<open>env\<close>, so that every theorem holds for every answer. The lines the
  script prints with \<^verbatim>\<open>console.log\<close> are left out, and so is the parsing of the command
  line: the model starts from the parsed value of \<^verbatim>\<open>--type\<close>.
\<close>

subsection \<open>Values\<close>

text \<open>
  A workspace package as \<^verbatim>\<open>npm query\<close> reports it. A field that can be absent from the
  JSON object (\<^verbatim>\<open>undefined\<close> in the script) is an option; \<open>is_private\<close> is the
  truthiness of the field \<^verbatim>\<open>private\<close>.
\<close>

record pkg =
  name :: "string option"
  path :: string
  location :: string
  is_private :: bool
  version :: "string option"
  gitHead :: "string option"

text \<open>
  A parsed \<^verbatim>\<open>package.json\<close>: the string-valued properties of the object by key, \<open>None\<close>
  for a property that is absent or \<^verbatim>\<open>undefined\<close> (\<^verbatim>\<open>JSON.stringify\<close> drops the latter,
  so both are the same file). A file on disk either holds such an object or text that
  \<^verbatim>\<open>JSON.parse\<close> rejects.
\<close>

type_synonym manifest = "string \<rightharpoonup> string"

datatype file_content = JsonFile manifest | TextFile string

text \<open>
  The errors the script can end with. An \<^verbatim>\<open>Error\<close> object created by \<^verbatim>\<open>execPipe\<close>
  carries the command line that failed: its message names only the command, but the
  object (and its stack) belongs to one call.
\<close>

datatype error =
  ExecPipeError string "string list"
| NpmError string
| GitError string
| ConfigError
| SyntaxError
| TypeError
| FsError string

fun message :: "error \<Rightarrow> string" where
  "message (ExecPipeError command args) = command @ '' command failed''"
| "message (NpmError err) = ''npm command failed:'' @ [CHR 0x0A] @ err"
| "message (GitError err) = ''git command failed:'' @ [CHR 0x0A] @ err"
| "message ConfigError = ''--type is required and must be one of: {ci}''"
| "message SyntaxError = ''SyntaxError''"
| "message TypeError = ''TypeError''"
| "message (FsError p) = ''file system error: '' @ p"

datatype event = Spawn string "string list" | WriteFile string manifest

record proc_out =
  code :: int
  stdout :: string
  stderr :: string

text \<open>What \<^verbatim>\<open>JSON.parse\<close> makes of the output of \<^verbatim>\<open>npm query\<close>.\<close>

datatype query_json = Invalid | NonArray | Packages "pkg list"

text \<open>
  The environment: the parsed command line (\<^verbatim>\<open>args.type\<close>), the working directory,
  what a spawned command line exits with and prints (an exit code of \<open>None\<close> is the
  \<^verbatim>\<open>null\<close> of a process killed by a signal; the same command line gets the same answer
  throughout a run), how the two JSON outputs parse
  (\<open>parse_view\<close> gives \<^verbatim>\<open>json?.error?.code\<close>, or \<open>None\<close> where \<^verbatim>\<open>JSON.parse\<close> throws),
  the \<^verbatim>\<open>semver.inc\<close> of the semver library, and whether writing a content to a path
  succeeds.
\<close>

record env =
  arg_type :: "string option"
  cwd :: string
  spawn_result :: "string \<Rightarrow> string list \<Rightarrow> int option \<times> string \<times> string"
  parse_query :: "string \<Rightarrow> query_json"
  parse_view :: "string \<Rightarrow> string option option"
  semver_inc :: "string option \<Rightarrow> string \<Rightarrow> string \<Rightarrow> bool \<Rightarrow> string option"
  write_ok :: "string \<Rightarrow> manifest \<Rightarrow> bool"

record world =
  disk :: "string \<rightharpoonup> file_content"
  trace :: "event list"
  packagesToRelease :: "(string \<times> pkg) list"

definition initial_world :: "(string \<rightharpoonup> file_content) \<Rightarrow> world" where
  "initial_world d = \<lparr>disk = d, trace = [], packagesToRelease = []\<rparr>"

subsection \<open>JavaScript built-ins the script uses\<close>

text \<open>\<^verbatim>\<open>`${x}`\<close> of a string or \<^verbatim>\<open>undefined\<close>.\<close>

fun js_str :: "string option \<Rightarrow> string" where
  "js_str None = ''undefined''"
| "js_str (Some s) = s"

text \<open>Truthiness of a string or \<^verbatim>\<open>null\<close>: the empty string is falsy.\<close>

fun truthy :: "string option \<Rightarrow> bool" where
  "truthy None = False"
| "truthy (Some s) = (s \<noteq> [])"

definition is_space :: "char \<Rightarrow> bool" where
  "is_space c = (c \<in> set [CHR 0x09, CHR 0x0A, CHR 0x0B, CHR 0x0C, CHR 0x0D, CHR '' ''])"

definition trim :: "string \<Rightarrow> string" where
  "trim s = rev (dropWhile is_space (rev (dropWhile is_space s)))"

definition path_join :: "string \<Rightarrow> string \<Rightarrow> string" where
  "path_join dir f = dir @ ''/'' @ f"

text \<open>\<^verbatim>\<open>xs.findIndex(p)\<close>: the first index where \<open>p\<close> holds, or \<open>-1\<close>.\<close>

fun findIndex :: "('a \<Rightarrow> bool) \<Rightarrow> 'a list \<Rightarrow> int" where
  "findIndex p [] = - 1"
| "findIndex p (x # xs) =
     (if p x then 0 else (let i = findIndex p xs in if i = - 1 then - 1 else i + 1))"

text \<open>
  An object literal is the list of its properties; \<open>obj_get\<close> is \<^verbatim>\<open>obj[k]\<close>, and
  \<open>Object_assign\<close> copies the properties of the literal into a parsed manifest.
\<close>

definition Object_keys :: "(string \<times> 'v) list \<Rightarrow> string list" where
  "Object_keys obj = map fst obj"

definition obj_get :: "(string \<times> string option) list \<Rightarrow> string \<Rightarrow> string option" where
  "obj_get obj k = (case map_of obj k of None \<Rightarrow> None | Some v \<Rightarrow> v)"

fun Object_assign :: "manifest \<Rightarrow> (string \<times> string option) list \<Rightarrow> manifest" where
  "Object_assign m [] = m"
| "Object_assign m ((k, v) # kvs) = Object_assign (m(k := v)) kvs"

text \<open>\<^verbatim>\<open>pkg[k]\<close> for a package object of the workspace query.\<close>

definition pkg_get :: "pkg \<Rightarrow> string \<Rightarrow> string option" where
  "pkg_get p k =
    (if k = ''name'' then name p
     else if k = ''path'' then Some (path p)
     else if k = ''location'' then Some (location p)
     else if k = ''version'' then version p
     else if k = ''gitHead'' then gitHead p
     else None)"

text \<open>
  A JavaScript \<^verbatim>\<open>Map\<close> keeps its keys in insertion order; \<^verbatim>\<open>set\<close> replaces the value of
  a key that is present and appends a new key.
\<close>

definition Map_set :: "(string \<times> 'v) list \<Rightarrow> string \<Rightarrow> 'v \<Rightarrow> (string \<times> 'v) list" where
  "Map_set m k v =
    (if k \<in> set (map fst m) then map (\<lambda>(k', v'). if k' = k then (k', v) else (k', v')) m
     else m @ [(k, v)])"

definition Map_keys :: "(string \<times> 'v) list \<Rightarrow> string list" where
  "Map_keys m = map fst m"

subsection \<open>Processes and files\<close>

text \<open>
  \<open>exec\<close> spawns the command line and resolves with its exit code (\<^verbatim>\<open>code ?? -1\<close>) and
  output; it never rejects. The spawn is recorded in the trace.
\<close>

definition exec :: "env \<Rightarrow> string \<Rightarrow> string list \<Rightarrow> world \<Rightarrow> proc_out \<times> world" where
  "exec e command args w =
    (case spawn_result e command args of
       (c, out, err) \<Rightarrow>
         (\<lparr>code = (case c of None \<Rightarrow> - 1 | Some n \<Rightarrow> n), stdout = out, stderr = err\<rparr>,
          w\<lparr>trace := trace w @ [Spawn command args]\<rparr>))"

definition execPipe :: "env \<Rightarrow> string \<Rightarrow> string list \<Rightarrow> world \<Rightarrow> (error + unit) \<times> world" where
  "execPipe e command args w =
    (case exec e command args w of
       (out, w') \<Rightarrow>
         if code out \<noteq> 0 then (Inl (ExecPipeError command args), w') else (Inr (), w'))"

definition npm :: "env \<Rightarrow> string list \<Rightarrow> world \<Rightarrow> (error + query_json) \<times> world" where
  "npm e args w =
    (case exec e ''npm'' (args @ [''--json'']) w of
       (out, w') \<Rightarrow>
         if code out \<noteq> 0 then (Inl (NpmError (stderr out)), w')
         else (case parse_query e (stdout out) of
                 Invalid \<Rightarrow> (Inl SyntaxError, w')
               | j \<Rightarrow> (Inr j, w')))"

text \<open>
  Reading a manifest: \<^verbatim>\<open>JSON.parse(await fsp.readFile(...))\<close>. Writing one: the write is
  recorded in the trace when it is issued; a write that fails leaves the file as it was.
\<close>

definition readJson :: "string \<Rightarrow> world \<Rightarrow> error + manifest" where
  "readJson f w =
    (case disk w f of
       None \<Rightarrow> Inl (FsError f)
     | Some (TextFile _) \<Rightarrow> Inl SyntaxError
     | Some (JsonFile m) \<Rightarrow> Inr m)"

definition writeJson :: "env \<Rightarrow> string \<Rightarrow> manifest \<Rightarrow> world \<Rightarrow> (error + unit) \<times> world" where
  "writeJson e f m w =
    (let w' = w\<lparr>trace := trace w @ [WriteFile f m]\<rparr>
     in if write_ok e f m then (Inr (), w'\<lparr>disk := (disk w')(f \<mapsto> JsonFile m)\<rparr>)
        else (Inl (FsError f), w'))"

subsection \<open>The script\<close>

text \<open>
  \<open>changePackageOptions\<close> writes the given properties into the package's manifest if one
  of them differs from what the file holds, and then returns the values the package
  object holds for them; it returns \<^verbatim>\<open>null\<close> (\<open>None\<close>) if nothing was written.
\<close>

definition packageFName :: "pkg \<Rightarrow> string" where
  "packageFName p = path_join (path p) ''package.json''"

definition changePackageOptions ::
    "env \<Rightarrow> pkg \<Rightarrow> (string \<times> string option) list \<Rightarrow> world
      \<Rightarrow> (error + (string \<times> string option) list option) \<times> world" where
  "changePackageOptions e p optionsNew w =
    (case readJson (packageFName p) w of
       Inl err \<Rightarrow> (Inl err, w)
     | Inr packageJSON \<Rightarrow>
         (let optionsOld = map (\<lambda>k. (k, pkg_get p k)) (Object_keys optionsNew)
          in if findIndex (\<lambda>k. packageJSON k \<noteq> obj_get optionsNew k) (Object_keys optionsNew)
                \<noteq> - 1
             then (case writeJson e (packageFName p) (Object_assign packageJSON optionsNew) w of
                     (Inl err, w') \<Rightarrow> (Inl err, w')
                   | (Inr _, w') \<Rightarrow> (Inr (Some optionsOld), w'))
             else (Inr None, w)))"

text \<open>
  \<^verbatim>\<open>Promise.all(xs.map(async (x) => ...))\<close>. Here the tasks are run one after the other
  in list order, each to its end; a task that fails does not stop the others, and the
  aggregate fails with the first failure. This is the schedule in which every task has
  settled when the code after the \<^verbatim>\<open>await\<close> runs. The other schedules, in which that code
  runs while tasks are still in flight, are modelled further down, task by task.
\<close>

fun Promise_all ::
    "('a \<Rightarrow> world \<Rightarrow> (error + unit) \<times> world) \<Rightarrow> 'a list \<Rightarrow> world \<Rightarrow> (error + unit) \<times> world" where
  "Promise_all task [] w = (Inr (), w)"
| "Promise_all task (x # xs) w =
    (case task x w of
       (r, w') \<Rightarrow>
         (case Promise_all task xs w' of
            (rs, w'') \<Rightarrow> ((case r of Inl err \<Rightarrow> Inl err | Inr _ \<Rightarrow> rs), w'')))"

text \<open>The filter of the workspace query; \<^verbatim>\<open>pkg.name.startsWith\<close> throws on a missing name.\<close>

definition keep_pkg :: "string \<Rightarrow> pkg \<Rightarrow> error + bool" where
  "keep_pkg dir p =
    (if \<not> is_private p \<and> path p \<noteq> dir
     then (case name p of
             None \<Rightarrow> Inl TypeError
           | Some n \<Rightarrow> Inr (prefix ''@ygg.tools/'' n))
     else Inr False)"

fun filter_pkgs :: "string \<Rightarrow> pkg list \<Rightarrow> error + pkg list" where
  "filter_pkgs dir [] = Inr []"
| "filter_pkgs dir (p # ps) =
    (case keep_pkg dir p of
       Inl err \<Rightarrow> Inl err
     | Inr b \<Rightarrow>
        (case filter_pkgs dir ps of
           Inl err \<Rightarrow> Inl err
         | Inr qs \<Rightarrow> Inr (if b then p # qs else qs)))"

definition discover :: "env \<Rightarrow> world \<Rightarrow> (error + pkg list) \<times> world" where
  "discover e w =
    (case npm e [''query'', ''.workspace''] w of
       (Inl err, w') \<Rightarrow> (Inl err, w')
     | (Inr j, w') \<Rightarrow>
         (case j of
            Packages ps \<Rightarrow> (filter_pkgs (cwd e) ps, w')
          | _ \<Rightarrow> (Inl TypeError, w')))"

text \<open>The two \<^verbatim>\<open>git\<close> calls, each giving the trimmed output.\<close>

definition git :: "env \<Rightarrow> string list \<Rightarrow> world \<Rightarrow> (error + string) \<times> world" where
  "git e args w =
    (case exec e ''git'' args w of
       (out, w') \<Rightarrow>
         if code out \<noteq> 0 then (Inl (GitError (stderr out)), w')
         else (Inr (trim (stdout out)), w'))"

text \<open>The body of the version update, for one package.\<close>

definition new_version :: "env \<Rightarrow> string \<Rightarrow> pkg \<Rightarrow> string option" where
  "new_version e gitVersion p =
     semver_inc e (version p) ''prerelease'' (''git.'' @ gitVersion) False"

definition pkgFullName :: "pkg \<Rightarrow> string option \<Rightarrow> string" where
  "pkgFullName p vnew = js_str (name p) @ ''@'' @ js_str vnew"

definition view_args :: "string \<Rightarrow> string list" where
  "view_args full = [''view'', full, ''name'', ''--json'']"

text \<open>
  The second half of the version update: does the new \<^verbatim>\<open>name@version\<close> exist in the
  registry? A failing \<^verbatim>\<open>npm view\<close> whose payload has the code \<^verbatim>\<open>E404\<close> schedules the
  package; any other failure is thrown.
\<close>

definition registry_check :: "env \<Rightarrow> pkg \<Rightarrow> string option \<Rightarrow> world \<Rightarrow> (error + unit) \<times> world" where
  "registry_check e p vnew w =
    (case exec e ''npm'' (view_args (pkgFullName p vnew)) w of
       (out, w') \<Rightarrow>
         if code out \<noteq> 0
         then (case parse_view e (stdout out) of
                 None \<Rightarrow> (Inl SyntaxError, w')
               | Some c \<Rightarrow>
                   if c \<noteq> Some ''E404''
                   then (Inl (NpmError (stderr out)), w')
                   else (Inr (),
                         w'\<lparr>packagesToRelease :=
                              Map_set (packagesToRelease w') (pkgFullName p vnew) p\<rparr>))
         else (Inr (), w'))"

definition bump_package :: "env \<Rightarrow> string \<Rightarrow> string \<Rightarrow> pkg \<Rightarrow> world \<Rightarrow> (error + unit) \<times> world" where
  "bump_package e gitVersion head p w =
    (let vnew = new_version e gitVersion p
     in if truthy vnew
        then (case changePackageOptions e p [(''version'', vnew), (''gitHead'', Some head)] w of
                (Inl err, w') \<Rightarrow> (Inl err, w')
              | (Inr _, w') \<Rightarrow> registry_check e p vnew w')
        else (Inr (), w))"

definition publish_args :: "pkg list \<Rightarrow> string list" where
  "publish_args packages =
     concat (map (\<lambda>p. [''--workspace'', location p]) packages)
     @ [''publish'', ''--no-git-checks'', ''--tag'', ''ci'']"

text \<open>
  \<^verbatim>\<open>try { publish } finally { postpublish }\<close>: the hook runs either way; if it throws,
  its error leaves the block, otherwise the outcome of the publish does.
\<close>

definition publish_step :: "env \<Rightarrow> pkg list \<Rightarrow> world \<Rightarrow> (error + unit) \<times> world" where
  "publish_step e packages w =
    (case execPipe e ''npm'' (publish_args packages) w of
       (r, w') \<Rightarrow>
         (case execPipe e ''npm'' [''run'', ''postpublish''] w' of
            (Inl err, w'') \<Rightarrow> (Inl err, w'')
          | (Inr _, w'') \<Rightarrow> (r, w'')))"

text \<open>The submission: the pre-publish hook, then the publish with its post-publish hook.\<close>

definition submit :: "env \<Rightarrow> pkg list \<Rightarrow> world \<Rightarrow> (error + unit) \<times> world" where
  "submit e packages w =
    (case execPipe e ''npm'' [''run'', ''prepublishOnly''] w of
       (Inl err, w') \<Rightarrow> (Inl err, w')
     | (Inr _, w') \<Rightarrow> publish_step e packages w')"

text \<open>The case \<^verbatim>\<open>"ci"\<close> of the switch: the version updates in a fan-out, then the submission.\<close>

definition ci_case :: "env \<Rightarrow> pkg list \<Rightarrow> string \<Rightarrow> string \<Rightarrow> world \<Rightarrow> (error + unit) \<times> world" where
  "ci_case e packages gitVersion head w =
    (case Promise_all (bump_package e gitVersion head) packages w of
       (Inl err, w') \<Rightarrow> (Inl err, w')
     | (Inr _, w') \<Rightarrow> submit e packages w')"

definition dist_tag_args :: "string \<Rightarrow> string list" where
  "dist_tag_args full = [''dist-tag'', ''add'', full, ''edge'']"

definition tag_promotion :: "env \<Rightarrow> world \<Rightarrow> (error + unit) \<times> world" where
  "tag_promotion e w =
    (let packageKeys = sort (Map_keys (packagesToRelease w))
     in Promise_all (\<lambda>full. execPipe e ''npm'' (dist_tag_args full)) packageKeys w)"

text \<open>The body of the outer \<^verbatim>\<open>try\<close>: the switch on the mode, then the tag promotion.\<close>

definition try_body :: "env \<Rightarrow> pkg list \<Rightarrow> string \<Rightarrow> string \<Rightarrow> world \<Rightarrow> (error + unit) \<times> world" where
  "try_body e packages gitVersion head w =
    (case (if arg_type e = Some ''ci'' then ci_case e packages gitVersion head w
           else (Inl ConfigError, w)) of
       (Inl err, w') \<Rightarrow> (Inl err, w')
     | (Inr _, w') \<Rightarrow> tag_promotion e w')"

text \<open>The \<^verbatim>\<open>finally\<close> block: the original version and revision, for every package.\<close>

definition restore_package :: "env \<Rightarrow> pkg \<Rightarrow> world \<Rightarrow> (error + unit) \<times> world" where
  "restore_package e p w =
    (case changePackageOptions e p [(''version'', version p), (''gitHead'', gitHead p)] w of
       (Inl err, w') \<Rightarrow> (Inl err, w')
     | (Inr _, w') \<Rightarrow> (Inr (), w'))"

definition restore :: "env \<Rightarrow> pkg list \<Rightarrow> world \<Rightarrow> (error + unit) \<times> world" where
  "restore e packages w = Promise_all (restore_package e) packages w"

text \<open>
  The module after the workspace query: the two \<^verbatim>\<open>git\<close> calls, the \<^verbatim>\<open>try\<close> and
  the \<^verbatim>\<open>finally\<close>. The result is the error the process ends with, or \<open>None\<close> for
  a normal end. An error of the \<^verbatim>\<open>finally\<close> block replaces the error of the \<^verbatim>\<open>try\<close>.
\<close>

definition after_discover :: "env \<Rightarrow> pkg list \<Rightarrow> world \<Rightarrow> error option \<times> world" where
  "after_discover e packages w1 =
    (case git e [''describe'', ''--always'', ''--tags''] w1 of
       (Inl err, w2) \<Rightarrow> (Some err, w2)
     | (Inr gitVersion, w2) \<Rightarrow>
         (case git e [''rev-parse'', ''HEAD''] w2 of
            (Inl err, w3) \<Rightarrow> (Some err, w3)
          | (Inr head, w3) \<Rightarrow>
              (case try_body e packages gitVersion head w3 of
                 (r, w4) \<Rightarrow>
                   (case restore e packages w4 of
                      (Inl err, w5) \<Rightarrow> (Some err, w5)
                    | (Inr _, w5) \<Rightarrow>
                        ((case r of Inl err \<Rightarrow> Some err | Inr _ \<Rightarrow> None), w5)))))"

text \<open>The whole module.\<close>

definition release :: "env \<Rightarrow> world \<Rightarrow> error option \<times> world" where
  "release e w =
    (case discover e w of
       (Inl err, w1) \<Rightarrow> (Some err, w1)
     | (Inr packages, w1) \<Rightarrow> after_discover e packages w1)"

subsection \<open>Notions the properties are stated with\<close>

text \<open>
  The three conditions of the discovery, as the specification words them: not private,
  not the root package, and named inside the scope.
\<close>

definition in_scope :: "string \<Rightarrow> pkg \<Rightarrow> bool" where
  "in_scope dir p =
    (\<not> is_private p \<and> path p \<noteq> dir
     \<and> (case name p of None \<Rightarrow> False | Some n \<Rightarrow> prefix ''@ygg.tools/'' n))"

text \<open>What the environment answers to a command line: exit code and output.\<close>

definition exit_code :: "env \<Rightarrow> string \<Rightarrow> string list \<Rightarrow> int" where
  "exit_code e command args =
     (case fst (spawn_result e command args) of None \<Rightarrow> - 1 | Some n \<Rightarrow> n)"

definition stdout_of :: "env \<Rightarrow> string \<Rightarrow> string list \<Rightarrow> string" where
  "stdout_of e command args = fst (snd (spawn_result e command args))"

definition stderr_of :: "env \<Rightarrow> string \<Rightarrow> string list \<Rightarrow> string" where
  "stderr_of e command args = snd (snd (spawn_result e command args))"

definition query_output :: "env \<Rightarrow> string" where
  "query_output e = stdout_of e ''npm'' [''query'', ''.workspace'', ''--json'']"

text \<open>
  The three outcomes of the registry query for a \<^verbatim>\<open>name@version\<close>: it succeeds (the
  version is published), it fails with the code \<^verbatim>\<open>E404\<close> in its error payload, or it
  fails in any other way (another code, no code, or output that is not JSON).
\<close>

datatype view_result = Published | NotFound | OtherFailure

definition view_outcome :: "env \<Rightarrow> string \<Rightarrow> view_result" where
  "view_outcome e full =
    (if exit_code e ''npm'' (view_args full) = 0 then Published
     else if parse_view e (stdout_of e ''npm'' (view_args full)) = Some (Some ''E404'')
     then NotFound
     else OtherFailure)"

text \<open>The events of a trace by kind.\<close>

fun is_write :: "event \<Rightarrow> bool" where
  "is_write (WriteFile _ _) = True"
| "is_write (Spawn _ _) = False"

fun written_path :: "event \<Rightarrow> string option" where
  "written_path (WriteFile f _) = Some f"
| "written_path (Spawn _ _) = None"

fun is_spawn :: "event \<Rightarrow> bool" where
  "is_spawn (Spawn _ _) = True"
| "is_spawn (WriteFile _ _) = False"

definition spawns :: "event list \<Rightarrow> event list" where
  "spawns tr = filter is_spawn tr"

definition writes :: "event list \<Rightarrow> event list" where
  "writes tr = filter is_write tr"

fun is_view :: "event \<Rightarrow> bool" where
  "is_view (Spawn command args) =
     (command = ''npm'' \<and> length args = 4 \<and> args = view_args (args ! 1))"
| "is_view (WriteFile _ _) = False"

text \<open>The \<^verbatim>\<open>name@version\<close> keys of the \<^verbatim>\<open>dist-tag add\<close> calls of a trace, in order.\<close>

fun tag_key :: "event \<Rightarrow> string option" where
  "tag_key (Spawn command args) =
     (if command = ''npm'' \<and> length args = 4 \<and> args = dist_tag_args (args ! 2)
      then Some (args ! 2) else None)"
| "tag_key (WriteFile _ _) = None"

definition tag_calls :: "event list \<Rightarrow> string list" where
  "tag_calls tr = List.map_filter tag_key tr"

text \<open>
  An \<^verbatim>\<open>npm publish\<close> command line of the script ends with the four arguments
  \<^verbatim>\<open>publish --no-git-checks --tag ci\<close>; the two hooks are \<^verbatim>\<open>npm run\<close> of a script.
\<close>

fun is_publish :: "event \<Rightarrow> bool" where
  "is_publish (Spawn command args) =
     (command = ''npm'' \<and> suffix [''publish'', ''--no-git-checks'', ''--tag'', ''ci''] args)"
| "is_publish (WriteFile _ _) = False"

definition prepublish_call :: event where
  "prepublish_call = Spawn ''npm'' [''run'', ''prepublishOnly'']"

definition postpublish_call :: event where
  "postpublish_call = Spawn ''npm'' [''run'', ''postpublish'']"

definition publish_call :: "pkg list \<Rightarrow> event" where
  "publish_call packages = Spawn ''npm'' (publish_args packages)"

definition view_call :: "string \<Rightarrow> event" where
  "view_call full = Spawn ''npm'' (view_args full)"

text \<open>The three calls every run starts with, when none of them fails.\<close>

definition startup_calls :: "event list" where
  "startup_calls =
    [Spawn ''npm'' [''query'', ''.workspace'', ''--json''],
     Spawn ''git'' [''describe'', ''--always'', ''--tags''],
     Spawn ''git'' [''rev-parse'', ''HEAD'']]"

text \<open>
  The version and revision a manifest file holds; and a disk on which the manifest of
  every package holds what the workspace query reported for it.
\<close>

definition manifest_fields :: "file_content option \<Rightarrow> (string option \<times> string option) option" where
  "manifest_fields f =
    (case f of Some (JsonFile m) \<Rightarrow> Some (m ''version'', m ''gitHead'') | _ \<Rightarrow> None)"

definition consistent :: "(string \<rightharpoonup> file_content) \<Rightarrow> pkg list \<Rightarrow> bool" where
  "consistent d packages =
    list_all (\<lambda>p. manifest_fields (d (packageFName p)) = Some (version p, gitHead p)) packages"

text \<open>
  The two \<^verbatim>\<open>git\<close> calls, what the script reads from them, and the world in which the
  \<^verbatim>\<open>try\<close> starts when the query and both calls succeed.
\<close>

definition gitVersion_of :: "env \<Rightarrow> string" where
  "gitVersion_of e = trim (stdout_of e ''git'' [''describe'', ''--always'', ''--tags''])"

definition gitHead_of :: "env \<Rightarrow> string" where
  "gitHead_of e = trim (stdout_of e ''git'' [''rev-parse'', ''HEAD''])"

definition git_ok :: "env \<Rightarrow> bool" where
  "git_ok e =
    (exit_code e ''git'' [''describe'', ''--always'', ''--tags''] = 0
     \<and> exit_code e ''git'' [''rev-parse'', ''HEAD''] = 0)"

definition git_calls :: "event list" where
  "git_calls = [Spawn ''git'' [''describe'', ''--always'', ''--tags''],
                Spawn ''git'' [''rev-parse'', ''HEAD'']]"

definition after_startup :: "(string \<rightharpoonup> file_content) \<Rightarrow> world" where
  "after_startup d = \<lparr>disk = d, trace = startup_calls, packagesToRelease = []\<rparr>"

text \<open>The version updates of a run: the fan-out over the discovered packages.\<close>

definition version_updates ::
    "env \<Rightarrow> pkg list \<Rightarrow> (string \<rightharpoonup> file_content) \<Rightarrow> (error + unit) \<times> world" where
  "version_updates e ps d =
     Promise_all (bump_package e (gitVersion_of e) (gitHead_of e)) ps (after_startup d)"

text \<open>
  The events a version update can add to the trace: a write to the manifest of a
  package whose version changes, or the registry query for its new \<^verbatim>\<open>name@version\<close>.
\<close>

definition bump_event :: "env \<Rightarrow> string \<Rightarrow> pkg list \<Rightarrow> event \<Rightarrow> bool" where
  "bump_event e gv ps ev =
    (\<exists>p \<in> set ps. truthy (new_version e gv p)
        \<and> (ev = view_call (pkgFullName p (new_version e gv p))
            \<or> (is_write ev \<and> written_path ev = Some (packageFName p))))"

text \<open>
  The link between registry queries and scheduled packages that every version update
  keeps: a query that was made and answered \<^verbatim>\<open>E404\<close> has its key in the map, and every
  key of the map comes from such a query.
\<close>

definition views_ok :: "env \<Rightarrow> world \<Rightarrow> bool" where
  "views_ok e w =
    ((\<forall>k. view_call k \<in> set (trace w) \<and> view_outcome e k = NotFound
          \<longrightarrow> k \<in> set (Map_keys (packagesToRelease w)))
     \<and> (\<forall>k \<in> set (Map_keys (packagesToRelease w)).
          view_outcome e k = NotFound \<and> view_call k \<in> set (trace w)))"

text \<open>
  What follows the version updates when they all succeed: the events of the submission
  and of the tag promotion, which stop after the first command that fails, and the error
  the \<^verbatim>\<open>try\<close> block is left with, if any.
\<close>

definition tag_call :: "string \<Rightarrow> event" where
  "tag_call full = Spawn ''npm'' (dist_tag_args full)"

definition publish_events :: "env \<Rightarrow> pkg list \<Rightarrow> world \<Rightarrow> event list" where
  "publish_events e ps wb =
    prepublish_call #
    (if exit_code e ''npm'' [''run'', ''prepublishOnly''] \<noteq> 0 then []
     else [publish_call ps, postpublish_call] @
       (if exit_code e ''npm'' (publish_args ps) \<noteq> 0
           \<or> exit_code e ''npm'' [''run'', ''postpublish''] \<noteq> 0
        then []
        else map tag_call (sort (Map_keys (packagesToRelease wb)))))"

definition try_error :: "env \<Rightarrow> pkg list \<Rightarrow> world \<Rightarrow> error option" where
  "try_error e ps wb =
    (if exit_code e ''npm'' [''run'', ''prepublishOnly''] \<noteq> 0
     then Some (ExecPipeError ''npm'' [''run'', ''prepublishOnly''])
     else if exit_code e ''npm'' [''run'', ''postpublish''] \<noteq> 0
     then Some (ExecPipeError ''npm'' [''run'', ''postpublish''])
     else if exit_code e ''npm'' (publish_args ps) \<noteq> 0
     then Some (ExecPipeError ''npm'' (publish_args ps))
     else (case find (\<lambda>k. exit_code e ''npm'' (dist_tag_args k) \<noteq> 0)
                  (sort (Map_keys (packagesToRelease wb))) of
             None \<Rightarrow> None
           | Some k \<Rightarrow> Some (ExecPipeError ''npm'' (dist_tag_args k))))"

text \<open>
  A disk on which the manifest of every package can be read; an environment in which
  every write that restores the version and revision of a package succeeds; and a
  manifest that holds the version and revision of its package.
\<close>

definition readable :: "(string \<rightharpoonup> file_content) \<Rightarrow> pkg list \<Rightarrow> bool" where
  "readable d ps = list_all (\<lambda>p. manifest_fields (d (packageFName p)) \<noteq> None) ps"

definition restores_ok :: "env \<Rightarrow> pkg list \<Rightarrow> bool" where
  "restores_ok e ps =
    (\<forall>p \<in> set ps. \<forall>m. m ''version'' = version p \<and> m ''gitHead'' = gitHead p
        \<longrightarrow> write_ok e (packageFName p) m)"

definition restored :: "world \<Rightarrow> pkg \<Rightarrow> bool" where
  "restored w p = (manifest_fields (disk w (packageFName p)) = Some (version p, gitHead p))"

subsection \<open>The fan-outs, task by task\<close>

text \<open>
  The fan-outs with their tasks interleaved. \<^verbatim>\<open>Promise.all\<close> rejects as soon as one task
  rejects; it neither stops nor awaits the other tasks, so the \<^verbatim>\<open>finally\<close> block can run
  while version updates are still in flight. To follow that, a task is cut at its
  \<^verbatim>\<open>await\<close>s: the state of a task names the operation it waits for, and a step runs the
  task from the completion of that operation to its next \<^verbatim>\<open>await\<close>. A file is read when
  the read completes and written when the write completes.
\<close>

datatype task_state = AtRead | AtWrite manifest | AtView | Fulfilled | Rejected error

fun settled :: "task_state \<Rightarrow> bool" where
  "settled Fulfilled = True"
| "settled (Rejected _) = True"
| "settled _ = False"

text \<open>
  \<open>changePackageOptions\<close> from the completion of \<^verbatim>\<open>readFile\<close> to the call of
  \<^verbatim>\<open>writeFile\<close> (the result is the object to write, or \<open>None\<close> when the function returns
  \<^verbatim>\<open>null\<close>), and the completion of \<^verbatim>\<open>writeFile\<close>.
\<close>

definition read_done ::
    "pkg \<Rightarrow> (string \<times> string option) list \<Rightarrow> world \<Rightarrow> (error + manifest option) \<times> world" where
  "read_done p optionsNew w =
    (case readJson (packageFName p) w of
       Inl err \<Rightarrow> (Inl err, w)
     | Inr packageJSON \<Rightarrow>
         if findIndex (\<lambda>k. packageJSON k \<noteq> obj_get optionsNew k) (Object_keys optionsNew)
              \<noteq> - 1
         then (Inr (Some (Object_assign packageJSON optionsNew)),
               w\<lparr>trace := trace w @
                    [WriteFile (packageFName p) (Object_assign packageJSON optionsNew)]\<rparr>)
         else (Inr None, w))"

definition write_done :: "env \<Rightarrow> pkg \<Rightarrow> manifest \<Rightarrow> world \<Rightarrow> (error + unit) \<times> world" where
  "write_done e p m w =
    (if write_ok e (packageFName p) m
     then (Inr (), w\<lparr>disk := (disk w)(packageFName p \<mapsto> JsonFile m)\<rparr>)
     else (Inl (FsError (packageFName p)), w))"

text \<open>The registry query: the spawn, and the callback's code after the process has closed.\<close>

definition view_spawn :: "pkg \<Rightarrow> string option \<Rightarrow> world \<Rightarrow> world" where
  "view_spawn p vnew w = w\<lparr>trace := trace w @ [view_call (pkgFullName p vnew)]\<rparr>"

definition view_done :: "env \<Rightarrow> pkg \<Rightarrow> string option \<Rightarrow> world \<Rightarrow> (error + unit) \<times> world" where
  "view_done e p vnew w =
    (if exit_code e ''npm'' (view_args (pkgFullName p vnew)) \<noteq> 0
     then (case parse_view e (stdout_of e ''npm'' (view_args (pkgFullName p vnew))) of
             None \<Rightarrow> (Inl SyntaxError, w)
           | Some c \<Rightarrow>
               if c \<noteq> Some ''E404''
               then (Inl (NpmError (stderr_of e ''npm'' (view_args (pkgFullName p vnew)))), w)
               else (Inr (),
                     w\<lparr>packagesToRelease :=
                         Map_set (packagesToRelease w) (pkgFullName p vnew) p\<rparr>))
     else (Inr (), w))"

text \<open>One step of a version update, and of a restore.\<close>

definition bump_start :: "env \<Rightarrow> string \<Rightarrow> pkg \<Rightarrow> task_state" where
  "bump_start e gitVersion p = (if truthy (new_version e gitVersion p) then AtRead else Fulfilled)"

fun bump_step ::
    "env \<Rightarrow> string \<Rightarrow> string \<Rightarrow> pkg \<Rightarrow> task_state \<Rightarrow> world \<Rightarrow> task_state \<times> world" where
  "bump_step e gitVersion head p AtRead w =
    (case read_done p [(''version'', new_version e gitVersion p), (''gitHead'', Some head)] w of
       (Inl err, w') \<Rightarrow> (Rejected err, w')
     | (Inr (Some m), w') \<Rightarrow> (AtWrite m, w')
     | (Inr None, w') \<Rightarrow> (AtView, view_spawn p (new_version e gitVersion p) w'))"
| "bump_step e gitVersion head p (AtWrite m) w =
    (case write_done e p m w of
       (Inl err, w') \<Rightarrow> (Rejected err, w')
     | (Inr _, w') \<Rightarrow> (AtView, view_spawn p (new_version e gitVersion p) w'))"
| "bump_step e gitVersion head p AtView w =
    (case view_done e p (new_version e gitVersion p) w of
       (Inl err, w') \<Rightarrow> (Rejected err, w')
     | (Inr _, w') \<Rightarrow> (Fulfilled, w'))"
| "bump_step e gitVersion head p st w = (st, w)"

fun restore_step :: "env \<Rightarrow> pkg \<Rightarrow> task_state \<Rightarrow> world \<Rightarrow> task_state \<times> world" where
  "restore_step e p AtRead w =
    (case read_done p [(''version'', version p), (''gitHead'', gitHead p)] w of
       (Inl err, w') \<Rightarrow> (Rejected err, w')
     | (Inr (Some m), w') \<Rightarrow> (AtWrite m, w')
     | (Inr None, w') \<Rightarrow> (Fulfilled, w'))"
| "restore_step e p (AtWrite m) w =
    (case write_done e p m w of
       (Inl err, w') \<Rightarrow> (Rejected err, w')
     | (Inr _, w') \<Rightarrow> (Fulfilled, w'))"
| "restore_step e p st w = (st, w)"

text \<open>
  A schedule names, one after the other, the task whose pending operation completes
  next. The aggregate promise of a fan-out is rejected with the error of the first task
  that rejects, and fulfilled when every task is fulfilled.
\<close>

datatype pick = Bump nat | Restore nat

fun first_rejection :: "task_state list \<Rightarrow> error option" where
  "first_rejection [] = None"
| "first_rejection (Rejected err # sts) = Some err"
| "first_rejection (_ # sts) = first_rejection sts"

definition all_fulfilled :: "task_state list \<Rightarrow> bool" where
  "all_fulfilled sts = list_all (\<lambda>st. st = Fulfilled) sts"

text \<open>
  The version updates under a schedule, until the aggregate settles: the result is what
  is left of the schedule, the outcome, the states of the tasks (those not settled are
  still in flight) and the world. \<open>None\<close>: the schedule ends too early, or picks a task
  that has nothing pending.
\<close>

fun bump_fanout ::
    "env \<Rightarrow> string \<Rightarrow> string \<Rightarrow> pkg list \<Rightarrow> pick list \<Rightarrow> task_state list \<Rightarrow> world
      \<Rightarrow> (pick list \<times> (error + unit) \<times> task_state list \<times> world) option" where
  "bump_fanout e gitVersion head ps sched bs w =
    (case first_rejection bs of
       Some err \<Rightarrow> Some (sched, Inl err, bs, w)
     | None \<Rightarrow>
         if all_fulfilled bs then Some (sched, Inr (), bs, w)
         else (case sched of
                 [] \<Rightarrow> None
               | Restore i # rest \<Rightarrow> None
               | Bump i # rest \<Rightarrow>
                   if i < length bs \<and> i < length ps \<and> \<not> settled (bs ! i)
                   then (case bump_step e gitVersion head (ps ! i) (bs ! i) w of
                           (st, w') \<Rightarrow> bump_fanout e gitVersion head ps rest (bs[i := st]) w')
                   else None))"

text \<open>
  The restore under a schedule, with the version updates that were left in flight when
  the \<^verbatim>\<open>try\<close> block was left. A version update that rejects now is ignored: its
  aggregate has settled already. The process ends when the restore settles.
\<close>

fun restore_fanout ::
    "env \<Rightarrow> string \<Rightarrow> string \<Rightarrow> pkg list \<Rightarrow> pick list \<Rightarrow> task_state list \<Rightarrow> task_state list
      \<Rightarrow> world \<Rightarrow> ((error + unit) \<times> world) option" where
  "restore_fanout e gitVersion head ps sched bs rs w =
    (case first_rejection rs of
       Some err \<Rightarrow> Some (Inl err, w)
     | None \<Rightarrow>
         if all_fulfilled rs then Some (Inr (), w)
         else (case sched of
                 [] \<Rightarrow> None
               | Restore i # rest \<Rightarrow>
                   if i < length rs \<and> i < length ps \<and> \<not> settled (rs ! i)
                   then (case restore_step e (ps ! i) (rs ! i) w of
                           (st, w') \<Rightarrow>
                             restore_fanout e gitVersion head ps rest bs (rs[i := st]) w')
                   else None
               | Bump i # rest \<Rightarrow>
                   if i < length bs \<and> i < length ps \<and> \<not> settled (bs ! i)
                   then (case bump_step e gitVersion head (ps ! i) (bs ! i) w of
                           (st, w') \<Rightarrow>
                             restore_fanout e gitVersion head ps rest (bs[i := st]) rs w')
                   else None))"

text \<open>
  The \<^verbatim>\<open>try\<close> block and the module under a schedule. Only the version updates and the
  restore touch the manifests, so only their tasks are interleaved; the submission and
  the tag promotion run as before.
\<close>

definition interleaved_try ::
    "env \<Rightarrow> pkg list \<Rightarrow> string \<Rightarrow> string \<Rightarrow> pick list \<Rightarrow> world
      \<Rightarrow> (pick list \<times> (error + unit) \<times> task_state list \<times> world) option" where
  "interleaved_try e packages gitVersion head sched w =
    (if arg_type e = Some ''ci''
     then (case bump_fanout e gitVersion head packages sched
                  (map (bump_start e gitVersion) packages) w of
             None \<Rightarrow> None
           | Some (rest, Inl err, bs, w') \<Rightarrow> Some (rest, Inl err, bs, w')
           | Some (rest, Inr _, bs, w') \<Rightarrow>
               (case submit e packages w' of
                  (Inl err, w'') \<Rightarrow> Some (rest, Inl err, bs, w'')
                | (Inr _, w'') \<Rightarrow>
                    (case tag_promotion e w'' of (r, w3) \<Rightarrow> Some (rest, r, bs, w3))))
     else Some (sched, Inl ConfigError, [], w))"

definition interleaved_release :: "env \<Rightarrow> pick list \<Rightarrow> world \<Rightarrow> (error option \<times> world) option" where
  "interleaved_release e sched w =
    (case discover e w of
       (Inl err, w1) \<Rightarrow> Some (Some err, w1)
     | (Inr packages, w1) \<Rightarrow>
         (case git e [''describe'', ''--always'', ''--tags''] w1 of
            (Inl err, w2) \<Rightarrow> Some (Some err, w2)
          | (Inr gitVersion, w2) \<Rightarrow>
              (case git e [''rev-parse'', ''HEAD''] w2 of
                 (Inl err, w3) \<Rightarrow> Some (Some err, w3)
               | (Inr head, w3) \<Rightarrow>
                   (case interleaved_try e packages gitVersion head sched w3 of
                      None \<Rightarrow> None
                    | Some (rest, r, bs, w4) \<Rightarrow>
                        (case restore_fanout e gitVersion head packages rest bs
                                (map (\<lambda>p. AtRead) packages) w4 of
                           None \<Rightarrow> None
                         | Some (Inl err, w5) \<Rightarrow> Some (Some err, w5)
                         | Some (Inr _, w5) \<Rightarrow>
                             Some ((case r of Inl err \<Rightarrow> Some err | Inr _ \<Rightarrow> None), w5))))))"

text \<open>A task run from its start to its end, without any other task in between.\<close>

definition run_task ::
    "(task_state \<Rightarrow> world \<Rightarrow> task_state \<times> world) \<Rightarrow> task_state \<Rightarrow> world \<Rightarrow> task_state \<times> world" where
  "run_task step st w =
    (case step st w of (s1, w1) \<Rightarrow> (case step s1 w1 of (s2, w2) \<Rightarrow> step s2 w2))"

definition as_state :: "(error + 'a) \<times> world \<Rightarrow> task_state \<times> world" where
  "as_state rw = (case rw of (Inl err, w) \<Rightarrow> (Rejected err, w) | (Inr _, w) \<Rightarrow> (Fulfilled, w))"

subsection \<open>A sample workspace\<close>

text \<open>
  Four packages as the workspace query reports them: two inside the scope, the root
  package, and one outside the scope; and a disk with the manifests of the first two.
\<close>

definition pkg_a :: pkg where
  "pkg_a = \<lparr>name = Some ''@ygg.tools/a'', path = ''/w/a'', location = ''packages/a'',
            is_private = False, version = Some ''1.0.0'', gitHead = None\<rparr>"

definition pkg_b :: pkg where
  "pkg_b = \<lparr>name = Some ''@ygg.tools/b'', path = ''/w/b'', location = ''packages/b'',
            is_private = False, version = Some ''2.0.0'', gitHead = None\<rparr>"

definition pkg_root :: pkg where
  "pkg_root = \<lparr>name = Some ''@ygg.tools/root'', path = ''/w'', location = '''',
               is_private = False, version = Some ''0.0.0'', gitHead = None\<rparr>"

definition pkg_docs :: pkg where
  "pkg_docs = \<lparr>name = Some ''docs'', path = ''/w/docs'', location = ''docs'',
               is_private = False, version = Some ''0.1.0'', gitHead = None\<rparr>"

definition sample_disk :: "string \<rightharpoonup> file_content" where
  "sample_disk =
    [''/w/a/package.json'' \<mapsto> JsonFile [''version'' \<mapsto> ''1.0.0''],
     ''/w/b/package.json'' \<mapsto> JsonFile [''version'' \<mapsto> ''2.0.0'']]"

text \<open>
  A sample environment: mode \<^verbatim>\<open>ci\<close>; the registry has no \<^verbatim>\<open>@ygg.tools/a@1.0.1-git.v1\<close>
  and has \<^verbatim>\<open>@ygg.tools/b@2.0.1-git.v1\<close>; every other command succeeds.
\<close>

definition sample_env :: env where
  "sample_env =
    \<lparr>arg_type = Some ''ci'', cwd = ''/w'',
     spawn_result = (\<lambda>command args.
        if command = ''npm'' \<and> args = view_args ''@ygg.tools/a@1.0.1-git.v1''
        then (Some 1, ''E404'', '''')
        else if command = ''git'' then (Some 0, ''v1'', '''')
        else (Some 0, '''', '''')),
     parse_query = (\<lambda>out. Packages [pkg_root, pkg_a, pkg_docs, pkg_b]),
     parse_view = (\<lambda>out. if out = ''E404'' then Some (Some ''E404'') else None),
     semver_inc = (\<lambda>v release identifier base.
        if v = Some ''1.0.0'' then Some ''1.0.1-git.v1''
        else if v = Some ''2.0.0'' then Some ''2.0.1-git.v1'' else None),
     write_ok = (\<lambda>f m. True)\<rparr>"

text \<open>
  The sample environment with a publish that fails, and with a publish and a post-publish
  hook that both fail.
\<close>

definition publish_fails_env :: env where
  "publish_fails_env =
    sample_env\<lparr>spawn_result := (\<lambda>command args.
      if command = ''npm'' \<and> args = publish_args [pkg_a, pkg_b] then (Some 1, '''', '''')
      else spawn_result sample_env command args)\<rparr>"

definition hook_fails_env :: env where
  "hook_fails_env =
    sample_env\<lparr>spawn_result := (\<lambda>command args.
      if command = ''npm'' \<and> (args = publish_args [pkg_a, pkg_b] \<or> args = [''run'', ''postpublish''])
      then (Some 1, '''', '''')
      else spawn_result sample_env command args)\<rparr>"

text \<open>
  The sample environment with a publish that fails and a restoring write, the one to the
  manifest of package a, that fails.
\<close>

definition restore_fails_env :: env where
  "restore_fails_env =
    publish_fails_env\<lparr>write_ok := (\<lambda>f m.
      \<not> (f = ''/w/a/package.json'' \<and> m ''version'' = Some ''1.0.0''))\<rparr>"

text \<open>
  The sample environment with a registry that answers the query for package a with
  another error code.
\<close>

definition registry_error_env :: env where
  "registry_error_env = sample_env\<lparr>parse_view := (\<lambda>out. Some (Some ''E500''))\<rparr>"

text \<open>
  The sample environment in which the write of the new version into the manifest of
  package a fails (every other write succeeds), and a schedule: both version updates read
  their manifests; the write of package a fails, which starts the restore; the restore of
  package b reads its manifest before the pending write of the new version of package b
  completes.
\<close>

definition failing_write_env :: env where
  "failing_write_env =
    sample_env\<lparr>write_ok := (\<lambda>f m.
      \<not> (f = ''/w/a/package.json'' \<and> m ''version'' = Some ''1.0.1-git.v1''))\<rparr>"

definition race_schedule :: "pick list" where
  "race_schedule = [Bump 0, Bump 1, Bump 0, Restore 1, Bump 1, Restore 0]"

section \<open>Properties of the extension list\<close>

lemma initial_groups_no_History: "History \<notin> group_extensions (initial_groups opts)"
  by (auto simp: group_extensions_def initial_groups_def)

lemma initial_groups_no_Collaboration:
  "x \<in> group_extensions (initial_groups opts) \<Longrightarrow>
     \<not> is_Collaboration x \<and> \<not> is_CollaborationCursor x"
  by (auto simp: group_extensions_def initial_groups_def)

lemma editor_group_kinds:
  "x \<in> set (extensions (editor_group opts)) \<Longrightarrow>
     x \<noteq> History \<and> \<not> is_Collaboration x \<and> \<not> is_CollaborationCursor x"
  by (auto simp: editor_group_def)

lemma collaboration_group_extensions:
  "set (extensions (collaboration_group c)) =
     {Collaboration (fragment c)} \<union>
     (if provider_awareness (provider c) \<noteq> None
      then {CollaborationCursor (user c)
              (case renderCursor c of None \<Rightarrow> DefaultRender | Some r \<Rightarrow> CustomRender r)
              (provider c)}
      else {})"
  by (simp add: collaboration_group_def Let_def)

lemma groups_extensions_None:
  "collaboration opts = None \<Longrightarrow>
     group_extensions (getBlockNoteExtensionGroups opts) =
       group_extensions (initial_groups opts) \<union> {History}
       \<union> set (extensions (editor_group opts))"
  by (auto simp: getBlockNoteExtensionGroups_def group_extensions_def history_group_def)

lemma groups_extensions_Some:
  "collaboration opts = Some c \<Longrightarrow>
     group_extensions (getBlockNoteExtensionGroups opts) =
       group_extensions (initial_groups opts) \<union> set (extensions (collaboration_group c))
       \<union> set (extensions (editor_group opts))"
  by (auto simp: getBlockNoteExtensionGroups_def group_extensions_def)

text \<open>
  C9. For every options value, the groups returned by \<open>getBlockNoteExtensionGroups\<close>
  contain the History extension if and only if no collaboration option is given. When a
  collaboration option is given, the Collaboration extension is among them, and a
  CollaborationCursor extension is among them if and only if the provider has a truthy
  \<open>awareness\<close> property. (Without a collaboration option neither of the two is present.)
\<close>

theorem history_iff_no_collaboration:
  "(History \<in> group_extensions (getBlockNoteExtensionGroups opts)
      \<longleftrightarrow> collaboration opts = None)
   \<and> (case collaboration opts of
        Some c \<Rightarrow>
          Collaboration (fragment c) \<in> group_extensions (getBlockNoteExtensionGroups opts)
          \<and> ((\<exists>x \<in> group_extensions (getBlockNoteExtensionGroups opts).
                 is_CollaborationCursor x)
               \<longleftrightarrow> provider_awareness (provider c) \<noteq> None)
      | None \<Rightarrow>
          \<not> (\<exists>x \<in> group_extensions (getBlockNoteExtensionGroups opts).
                is_Collaboration x \<or> is_CollaborationCursor x))"
proof (cases "collaboration opts")
  case None
  have "\<not> (\<exists>x \<in> group_extensions (getBlockNoteExtensionGroups opts).
             is_Collaboration x \<or> is_CollaborationCursor x)"
    using initial_groups_no_Collaboration [of _ opts] editor_group_kinds [of _ opts]
    by (auto simp: groups_extensions_None [OF None])
  then show ?thesis
    using None by (simp add: groups_extensions_None [OF None])
next
  case (Some c)
  have h: "History \<notin> group_extensions (getBlockNoteExtensionGroups opts)"
    using initial_groups_no_History [of opts] editor_group_kinds [of History opts]
    by (auto simp: groups_extensions_Some [OF Some] collaboration_group_extensions
        split: if_splits)
  have c: "Collaboration (fragment c) \<in> group_extensions (getBlockNoteExtensionGroups opts)"
    by (simp add: groups_extensions_Some [OF Some] collaboration_group_extensions)
  have cc: "(\<exists>x \<in> group_extensions (getBlockNoteExtensionGroups opts).
               is_CollaborationCursor x)
            \<longleftrightarrow> provider_awareness (provider c) \<noteq> None"
    using initial_groups_no_Collaboration [of _ opts] editor_group_kinds [of _ opts]
    by (auto simp: groups_extensions_Some [OF Some] collaboration_group_extensions
        split: if_splits)
  show ?thesis
    using Some h c cc by simp
qed

theorem history_iff_no_collaboration_witness:
  "History \<notin> group_extensions (getBlockNoteExtensionGroups
      \<lparr>editor = Editor 0, domAttributes = DomAttributes 0, blockSchema = [],
       collaboration = Some \<lparr>fragment = XmlFragment 1, user = CollabUser ''ann'' ''#00f'',
                               provider = Some \<lparr>awareness = Some (Awareness 2)\<rparr>,
                               renderCursor = None\<rparr>\<rparr>)
   \<and> Collaboration (XmlFragment 1) \<in> group_extensions (getBlockNoteExtensionGroups
      \<lparr>editor = Editor 0, domAttributes = DomAttributes 0, blockSchema = [],
       collaboration = Some \<lparr>fragment = XmlFragment 1, user = CollabUser ''ann'' ''#00f'',
                               provider = Some \<lparr>awareness = Some (Awareness 2)\<rparr>,
                               renderCursor = None\<rparr>\<rparr>)
   \<and> (\<exists>x \<in> group_extensions (getBlockNoteExtensionGroups
      \<lparr>editor = Editor 0, domAttributes = DomAttributes 0, blockSchema = [],
       collaboration = Some \<lparr>fragment = XmlFragment 1, user = CollabUser ''ann'' ''#00f'',
                               provider = Some \<lparr>awareness = Some (Awareness 2)\<rparr>,
                               renderCursor = None\<rparr>\<rparr>). is_CollaborationCursor x)"
  using history_iff_no_collaboration [of
      "\<lparr>editor = Editor 0, domAttributes = DomAttributes 0, blockSchema = [],
       collaboration = Some \<lparr>fragment = XmlFragment 1, user = CollabUser ''ann'' ''#00f'',
                               provider = Some \<lparr>awareness = Some (Awareness 2)\<rparr>,
                               renderCursor = None\<rparr>\<rparr>"]
  by (simp add: provider_awareness_def)

text \<open>
  C10. For every options value, the last group returned by \<open>getBlockNoteExtensionGroups\<close>
  is the group named Editor, whose only extension is the one created under the name
  BlockNoteUIExtension; and that extension is the last element of the flattened list
  returned by \<open>getBlockNoteExtensions\<close>.
\<close>

theorem editor_group_last:
  "getBlockNoteExtensionGroups opts \<noteq> []
   \<and> last (getBlockNoteExtensionGroups opts) = editor_group opts
   \<and> group_name (last (getBlockNoteExtensionGroups opts)) = ''Editor''
   \<and> list_all is_BlockNoteUIExtension (extensions (last (getBlockNoteExtensionGroups opts)))
   \<and> getBlockNoteExtensions opts \<noteq> []
   \<and> [last (getBlockNoteExtensions opts)] = extensions (editor_group opts)
   \<and> is_BlockNoteUIExtension (last (getBlockNoteExtensions opts))"
  by (simp add: getBlockNoteExtensionGroups_def getBlockNoteExtensions_def Let_def
      editor_group_def split: option.split)

section \<open>Properties of the release script\<close>

subsection \<open>Auxiliary facts\<close>


lemma filter_pkgs_named:
  "\<forall>p \<in> set ps. name p \<noteq> None \<Longrightarrow> filter_pkgs dir ps = Inr (filter (in_scope dir) ps)"
  by (induction ps)
     (auto simp: keep_pkg_def in_scope_def split: sum.splits if_splits option.splits)

lemma findIndex_ge: "- 1 \<le> findIndex p xs"
  by (induction xs) (auto simp: Let_def)

lemma findIndex_iff: "findIndex p xs \<noteq> - 1 \<longleftrightarrow> (\<exists>x \<in> set xs. p x)"
proof (induction xs)
  case Nil
  then show ?case by simp
next
  case (Cons x xs)
  have "findIndex p xs + 1 \<noteq> - 1"
    using findIndex_ge [of p xs] by arith
  with Cons show ?case by (auto simp: Let_def)
qed

lemma exec_eq:
  "exec e c args w =
    (\<lparr>code = exit_code e c args, stdout = stdout_of e c args, stderr = stderr_of e c args\<rparr>,
     w\<lparr>trace := trace w @ [Spawn c args]\<rparr>)"
  by (simp add: exec_def exit_code_def stdout_of_def stderr_of_def split: prod.splits)

lemma execPipe_eq:
  "execPipe e c args w =
    (if exit_code e c args \<noteq> 0 then Inl (ExecPipeError c args) else Inr (),
     w\<lparr>trace := trace w @ [Spawn c args]\<rparr>)"
  by (simp add: execPipe_def exec_eq)

lemma git_eq:
  "git e args w =
    (if exit_code e ''git'' args \<noteq> 0 then Inl (GitError (stderr_of e ''git'' args))
     else Inr (trim (stdout_of e ''git'' args)),
     w\<lparr>trace := trace w @ [Spawn ''git'' args]\<rparr>)"
  by (simp add: git_def exec_eq)

lemma discover_eq:
  "discover e w =
    ((if exit_code e ''npm'' [''query'', ''.workspace'', ''--json''] \<noteq> 0
      then Inl (NpmError (stderr_of e ''npm'' [''query'', ''.workspace'', ''--json'']))
      else (case parse_query e (query_output e) of
              Invalid \<Rightarrow> Inl SyntaxError
            | NonArray \<Rightarrow> Inl TypeError
            | Packages ps \<Rightarrow> filter_pkgs (cwd e) ps)),
     w\<lparr>trace := trace w @ [Spawn ''npm'' [''query'', ''.workspace'', ''--json'']]\<rparr>)"
  by (simp add: discover_def npm_def exec_eq query_output_def split: query_json.splits)


lemma changePackageOptions_two:
  "changePackageOptions e p [(''version'', a), (''gitHead'', b)] w =
    (case readJson (packageFName p) w of
       Inl err \<Rightarrow> (Inl err, w)
     | Inr m \<Rightarrow>
         if m ''version'' \<noteq> a \<or> m ''gitHead'' \<noteq> b
         then (if write_ok e (packageFName p) (m(''version'' := a, ''gitHead'' := b))
               then (Inr (Some [(''version'', version p), (''gitHead'', gitHead p)]),
                     w\<lparr>trace := trace w @
                          [WriteFile (packageFName p) (m(''version'' := a, ''gitHead'' := b))],
                       disk := (disk w)(packageFName p \<mapsto>
                          JsonFile (m(''version'' := a, ''gitHead'' := b)))\<rparr>)
               else (Inl (FsError (packageFName p)),
                     w\<lparr>trace := trace w @
                          [WriteFile (packageFName p) (m(''version'' := a, ''gitHead'' := b))]\<rparr>))
         else (Inr None, w))"
  by (simp add: changePackageOptions_def findIndex_iff Object_keys_def obj_get_def
      writeJson_def Let_def pkg_get_def split: sum.splits)

lemma map_fst_Map_set_present:
  "map (fst \<circ> (\<lambda>(k', v'). if k' = k then (k', v) else (k', v'))) m = map fst m"
  by (induction m) auto

lemma Map_keys_Map_set_list:
  "Map_keys (Map_set m k v) = (if k \<in> set (Map_keys m) then Map_keys m else Map_keys m @ [k])"
  by (simp add: Map_keys_def Map_set_def map_fst_Map_set_present)

lemma Map_keys_Map_set:
  "set (Map_keys (Map_set m k v)) = insert k (set (Map_keys m))"
  by (auto simp: Map_keys_Map_set_list)

lemma distinct_Map_set:
  "distinct (Map_keys m) \<Longrightarrow> distinct (Map_keys (Map_set m k v))"
  by (simp add: Map_keys_Map_set_list)

lemma registry_check_eq:
  "registry_check e p vnew w =
    (case view_outcome e (pkgFullName p vnew) of
       Published \<Rightarrow> (Inr (), w\<lparr>trace := trace w @ [view_call (pkgFullName p vnew)]\<rparr>)
     | NotFound \<Rightarrow>
         (Inr (), w\<lparr>trace := trace w @ [view_call (pkgFullName p vnew)],
                    packagesToRelease := Map_set (packagesToRelease w) (pkgFullName p vnew) p\<rparr>)
     | OtherFailure \<Rightarrow>
         (Inl (case parse_view e (stdout_of e ''npm'' (view_args (pkgFullName p vnew))) of
                 None \<Rightarrow> SyntaxError
               | Some _ \<Rightarrow> NpmError (stderr_of e ''npm'' (view_args (pkgFullName p vnew)))),
          w\<lparr>trace := trace w @ [view_call (pkgFullName p vnew)]\<rparr>))"
  by (simp add: registry_check_def exec_eq view_outcome_def view_call_def split: option.splits)

lemma view_call_inj [simp]: "view_call k = view_call k' \<longleftrightarrow> k = k'"
  by (simp add: view_call_def view_args_def)

lemma view_call_not_write [simp]: "view_call k \<noteq> WriteFile f m" "WriteFile f m \<noteq> view_call k"
  by (simp_all add: view_call_def)

lemma views_okD1:
  "views_ok e w \<Longrightarrow> view_call k \<in> set (trace w) \<Longrightarrow> view_outcome e k = NotFound
     \<Longrightarrow> k \<in> set (Map_keys (packagesToRelease w))"
  unfolding views_ok_def by blast

lemma views_okD2:
  "views_ok e w \<Longrightarrow> k \<in> set (Map_keys (packagesToRelease w))
     \<Longrightarrow> view_outcome e k = NotFound \<and> view_call k \<in> set (trace w)"
  unfolding views_ok_def by blast

lemma views_ok_add_view:
  assumes ok: "views_ok e w" and tr: "trace w' = trace w @ [view_call k0]"
    and keys: "set (Map_keys (packagesToRelease w')) =
       (if view_outcome e k0 = NotFound then insert k0 (set (Map_keys (packagesToRelease w)))
        else set (Map_keys (packagesToRelease w)))"
  shows "views_ok e w'"
  unfolding views_ok_def
proof (intro conjI allI ballI impI)
  fix k
  assume a: "view_call k \<in> set (trace w') \<and> view_outcome e k = NotFound"
  then have "k = k0 \<or> view_call k \<in> set (trace w)"
    by (simp add: tr)
  then show "k \<in> set (Map_keys (packagesToRelease w'))"
  proof
    assume "k = k0"
    with a show ?thesis by (simp add: keys)
  next
    assume "view_call k \<in> set (trace w)"
    from views_okD1 [OF ok this] a show ?thesis by (simp add: keys)
  qed
next
  fix k
  assume a: "k \<in> set (Map_keys (packagesToRelease w'))"
  then have "(k = k0 \<and> view_outcome e k0 = NotFound) \<or> k \<in> set (Map_keys (packagesToRelease w))"
    by (simp add: keys split: if_splits)
  then show "view_outcome e k = NotFound"
    using views_okD2 [OF ok] by blast
  from \<open>(k = k0 \<and> view_outcome e k0 = NotFound) \<or> k \<in> set (Map_keys (packagesToRelease w))\<close>
  show "view_call k \<in> set (trace w')"
    using views_okD2 [OF ok, of k] by (auto simp: tr)
qed

lemma views_ok_registry_check:
  assumes "views_ok e w"
  shows "views_ok e (snd (registry_check e p vnew w))"
proof (rule views_ok_add_view [OF assms, where ?k0.0 = "pkgFullName p vnew"])
  show "trace (snd (registry_check e p vnew w)) = trace w @ [view_call (pkgFullName p vnew)]"
    by (cases "view_outcome e (pkgFullName p vnew)") (simp_all add: registry_check_eq)
  show "set (Map_keys (packagesToRelease (snd (registry_check e p vnew w)))) =
       (if view_outcome e (pkgFullName p vnew) = NotFound
        then insert (pkgFullName p vnew) (set (Map_keys (packagesToRelease w)))
        else set (Map_keys (packagesToRelease w)))"
    by (cases "view_outcome e (pkgFullName p vnew)")
       (simp_all add: registry_check_eq Map_keys_Map_set)
qed

lemma readJson_cases:
  obtains (fail) err where "readJson f w = Inl err"
  | (ok) m where "readJson f w = Inr m" "disk w f = Some (JsonFile m)"
  by (cases "disk w f"; cases "the (disk w f)") (auto simp: readJson_def)

text \<open>The four ways a call of changePackageOptions with the two fields can end.\<close>

lemma changePackageOptions_two_cases:
  obtains
    (read_fail) err where
      "readJson (packageFName p) w = Inl err"
      "changePackageOptions e p [(''version'', a), (''gitHead'', b)] w = (Inl err, w)"
  | (same) m where
      "disk w (packageFName p) = Some (JsonFile m)" "m ''version'' = a" "m ''gitHead'' = b"
      "changePackageOptions e p [(''version'', a), (''gitHead'', b)] w = (Inr None, w)"
  | (written) m where
      "disk w (packageFName p) = Some (JsonFile m)" "m ''version'' \<noteq> a \<or> m ''gitHead'' \<noteq> b"
      "write_ok e (packageFName p) (m(''version'' := a, ''gitHead'' := b))"
      "changePackageOptions e p [(''version'', a), (''gitHead'', b)] w =
         (Inr (Some [(''version'', version p), (''gitHead'', gitHead p)]),
          w\<lparr>trace := trace w @
               [WriteFile (packageFName p) (m(''version'' := a, ''gitHead'' := b))],
            disk := (disk w)(packageFName p \<mapsto>
               JsonFile (m(''version'' := a, ''gitHead'' := b)))\<rparr>)"
  | (write_fail) m where
      "disk w (packageFName p) = Some (JsonFile m)" "m ''version'' \<noteq> a \<or> m ''gitHead'' \<noteq> b"
      "\<not> write_ok e (packageFName p) (m(''version'' := a, ''gitHead'' := b))"
      "changePackageOptions e p [(''version'', a), (''gitHead'', b)] w =
         (Inl (FsError (packageFName p)),
          w\<lparr>trace := trace w @
               [WriteFile (packageFName p) (m(''version'' := a, ''gitHead'' := b))]\<rparr>)"
proof (cases rule: readJson_cases [of "packageFName p" w])
  case (fail err)
  then show ?thesis using read_fail by (simp add: changePackageOptions_two)
next
  case (ok m)
  show ?thesis
  proof (cases "m ''version'' \<noteq> a \<or> m ''gitHead'' \<noteq> b")
    case False
    then show ?thesis using ok same [of m] by (simp add: changePackageOptions_two)
  next
    case True
    show ?thesis
    proof (cases "write_ok e (packageFName p) (m(''version'' := a, ''gitHead'' := b))")
      case w: True
      show ?thesis
        by (rule written [OF ok(2) True w]) (use ok True w in \<open>simp add: changePackageOptions_two\<close>)
    next
      case w: False
      show ?thesis
        by (rule write_fail [OF ok(2) True w]) (use ok True w in \<open>simp add: changePackageOptions_two\<close>)
    qed
  qed
qed

lemma bump_package_cases:
  obtains
    (skip) "\<not> truthy (new_version e gv p)" "bump_package e gv h p w = (Inr (), w)"
  | (update_fail) err w1 where
      "truthy (new_version e gv p)"
      "changePackageOptions e p [(''version'', new_version e gv p), (''gitHead'', Some h)] w
         = (Inl err, w1)"
      "bump_package e gv h p w = (Inl err, w1)"
  | (checked) x w1 where
      "truthy (new_version e gv p)"
      "changePackageOptions e p [(''version'', new_version e gv p), (''gitHead'', Some h)] w
         = (Inr x, w1)"
      "bump_package e gv h p w = registry_check e p (new_version e gv p) w1"
proof (cases "truthy (new_version e gv p)")
  case False
  then show ?thesis using skip by (simp add: bump_package_def)
next
  case True
  obtain r w1 where c:
    "changePackageOptions e p [(''version'', new_version e gv p), (''gitHead'', Some h)] w = (r, w1)"
    by (cases "changePackageOptions e p [(''version'', new_version e gv p), (''gitHead'', Some h)] w")
  show ?thesis
  proof (cases r)
    case (Inl err)
    with True c show ?thesis using update_fail by (simp add: bump_package_def)
  next
    case (Inr x)
    with True c show ?thesis using checked by (simp add: bump_package_def)
  qed
qed

lemma changePackageOptions_two_frame:
  assumes "changePackageOptions e p [(''version'', a), (''gitHead'', b)] w = (r, w')"
  shows "packagesToRelease w' = packagesToRelease w"
    and "\<exists>es. trace w' = trace w @ es
           \<and> list_all (\<lambda>ev. is_write ev \<and> written_path ev = Some (packageFName p)) es"
    and "f \<noteq> packageFName p \<Longrightarrow> disk w' f = disk w f"
proof -
  show "packagesToRelease w' = packagesToRelease w"
    using assms by (cases rule: changePackageOptions_two_cases [of p w e a b]) auto
  show "\<exists>es. trace w' = trace w @ es
           \<and> list_all (\<lambda>ev. is_write ev \<and> written_path ev = Some (packageFName p)) es"
    using assms by (cases rule: changePackageOptions_two_cases [of p w e a b]) auto
  show "disk w' f = disk w f" if "f \<noteq> packageFName p"
    using assms that by (cases rule: changePackageOptions_two_cases [of p w e a b]) auto
qed

lemma registry_check_frame:
  "trace (snd (registry_check e p vnew w)) = trace w @ [view_call (pkgFullName p vnew)]"
  "disk (snd (registry_check e p vnew w)) = disk w"
  by (cases "view_outcome e (pkgFullName p vnew)"; simp add: registry_check_eq)+

lemma registry_check_keys:
  "Map_keys (packagesToRelease (snd (registry_check e p vnew w))) =
     (if view_outcome e (pkgFullName p vnew) = NotFound
         \<and> pkgFullName p vnew \<notin> set (Map_keys (packagesToRelease w))
      then Map_keys (packagesToRelease w) @ [pkgFullName p vnew]
      else Map_keys (packagesToRelease w))"
  by (cases "view_outcome e (pkgFullName p vnew)"; simp add: registry_check_eq Map_keys_Map_set_list)

lemma registry_check_failure:
  "isl (fst (registry_check e p vnew w)) \<longleftrightarrow> view_outcome e (pkgFullName p vnew) = OtherFailure"
  by (cases "view_outcome e (pkgFullName p vnew)"; simp add: registry_check_eq)

lemma bump_package_trace:
  "\<exists>es. trace (snd (bump_package e gv h p w)) = trace w @ es
        \<and> list_all (bump_event e gv [p]) es"
proof (cases rule: bump_package_cases [of e gv p h w])
  case skip
  then show ?thesis by simp
next
  case (update_fail err w1)
  from changePackageOptions_two_frame(2) [OF update_fail(2)] update_fail(1,3)
  show ?thesis by (auto simp: bump_event_def list_all_iff)
next
  case (checked x w1)
  from changePackageOptions_two_frame(2) [OF checked(2)]
  obtain es where es: "trace w1 = trace w @ es"
    "list_all (\<lambda>ev. is_write ev \<and> written_path ev = Some (packageFName p)) es"
    by blast
  have "trace (snd (bump_package e gv h p w))
          = trace w @ (es @ [view_call (pkgFullName p (new_version e gv p))])"
    by (simp add: checked(3) registry_check_frame es(1))
  moreover have "list_all (bump_event e gv [p]) (es @ [view_call (pkgFullName p (new_version e gv p))])"
    using es(2) checked(1) by (auto simp: bump_event_def list_all_iff)
  ultimately show ?thesis by blast
qed

lemma Promise_all_snd_Cons:
  "snd (Promise_all task (x # xs) w) = snd (Promise_all task xs (snd (task x w)))"
proof -
  obtain r w' where t: "task x w = (r, w')" by (cases "task x w")
  obtain rs w'' where p: "Promise_all task xs w' = (rs, w'')" by (cases "Promise_all task xs w'")
  show ?thesis by (simp add: t p)
qed

lemma Promise_all_fst_Cons:
  "fst (Promise_all task (x # xs) w) =
     (case fst (task x w) of
        Inl err \<Rightarrow> Inl err
      | Inr _ \<Rightarrow> fst (Promise_all task xs (snd (task x w))))"
proof -
  obtain r w' where t: "task x w = (r, w')" by (cases "task x w")
  obtain rs w'' where p: "Promise_all task xs w' = (rs, w'')" by (cases "Promise_all task xs w'")
  show ?thesis by (cases r) (simp_all add: t p)
qed

lemma Promise_all_rel:
  assumes refl: "\<And>w. R w w"
    and trans: "\<And>w1 w2 w3. R w1 w2 \<Longrightarrow> R w2 w3 \<Longrightarrow> R w1 w3"
    and step: "\<And>x w. x \<in> set xs \<Longrightarrow> R w (snd (task x w))"
  shows "R w (snd (Promise_all task xs w))"
  using step
proof (induction xs arbitrary: w)
  case Nil
  show ?case by (simp add: refl)
next
  case (Cons x xs)
  have "R w (snd (task x w))" by (rule Cons.prems) simp
  moreover have "R (snd (task x w)) (snd (Promise_all task xs (snd (task x w))))"
    by (rule Cons.IH) (simp add: Cons.prems)
  ultimately show ?case
    unfolding Promise_all_snd_Cons by (rule trans)
qed

lemma Promise_all_isl:
  "isl (fst (Promise_all task xs w)) \<Longrightarrow> \<exists>x \<in> set xs. \<exists>w1. isl (fst (task x w1))"
proof (induction xs arbitrary: w)
  case Nil
  then show ?case by simp
next
  case (Cons x xs)
  show ?case
  proof (cases "fst (task x w)")
    case (Inl err)
    then have "isl (fst (task x w))" by simp
    then show ?thesis by auto
  next
    case (Inr u)
    with Cons.prems have "isl (fst (Promise_all task xs (snd (task x w))))"
      by (simp only: Promise_all_fst_Cons sum.case)
    from Cons.IH [OF this] show ?thesis by auto
  qed
qed

lemma is_view_view_call [simp]: "is_view (view_call k)"
  by (simp add: view_call_def view_args_def)

lemma is_write_not_view: "is_write ev \<Longrightarrow> \<not> is_view ev"
  by (cases ev) simp_all

lemma bump_event_mono: "bump_event e gv [p] ev \<Longrightarrow> p \<in> set ps \<Longrightarrow> bump_event e gv ps ev"
  by (auto simp: bump_event_def)

lemma views_ok_write:
  assumes ok: "views_ok e w" and keys: "packagesToRelease w' = packagesToRelease w"
    and tr: "trace w' = trace w @ es" and nv: "list_all (\<lambda>ev. \<not> is_view ev) es"
  shows "views_ok e w'"
proof -
  have "view_call k \<notin> set es" for k
  proof
    assume "view_call k \<in> set es"
    with nv have "\<not> is_view (view_call k)" unfolding list_all_iff by blast
    then show False by simp
  qed
  then have iff: "view_call k \<in> set (trace w') \<longleftrightarrow> view_call k \<in> set (trace w)" for k
    by (simp add: tr)
  show ?thesis
    unfolding views_ok_def
  proof (intro conjI allI ballI impI)
    fix k
    assume "view_call k \<in> set (trace w') \<and> view_outcome e k = NotFound"
    then show "k \<in> set (Map_keys (packagesToRelease w'))"
      using views_okD1 [OF ok, of k] by (simp add: iff keys)
  next
    fix k
    assume "k \<in> set (Map_keys (packagesToRelease w'))"
    then have "k \<in> set (Map_keys (packagesToRelease w))" by (simp add: keys)
    from views_okD2 [OF ok this]
    show "view_outcome e k = NotFound" "view_call k \<in> set (trace w')"
      by (simp_all add: iff)
  qed
qed

lemma bump_all_trace:
  "\<exists>es. trace (snd (Promise_all (bump_package e gv h) ps w)) = trace w @ es
        \<and> list_all (bump_event e gv ps) es"
proof (rule Promise_all_rel [where R = "\<lambda>w w'. \<exists>es. trace w' = trace w @ es
        \<and> list_all (bump_event e gv ps) es"])
  show "\<exists>es. trace w = trace w @ es \<and> list_all (bump_event e gv ps) es" for w :: world
    by (rule exI [of _ "[]"]) simp
next
  fix w1 w2 w3 :: world
  assume "\<exists>es. trace w2 = trace w1 @ es \<and> list_all (bump_event e gv ps) es"
    and "\<exists>es. trace w3 = trace w2 @ es \<and> list_all (bump_event e gv ps) es"
  then obtain es es' where "trace w2 = trace w1 @ es" "list_all (bump_event e gv ps) es"
    "trace w3 = trace w2 @ es'" "list_all (bump_event e gv ps) es'"
    by blast
  then have "trace w3 = trace w1 @ (es @ es') \<and> list_all (bump_event e gv ps) (es @ es')"
    by simp
  then show "\<exists>es. trace w3 = trace w1 @ es \<and> list_all (bump_event e gv ps) es" ..
next
  fix p w
  assume p: "p \<in> set ps"
  from bump_package_trace [of e gv h p w]
  obtain es where "trace (snd (bump_package e gv h p w)) = trace w @ es"
    "list_all (bump_event e gv [p]) es"
    by blast
  moreover have "list_all (bump_event e gv ps) es"
    unfolding list_all_iff
  proof
    fix ev assume "ev \<in> set es"
    with \<open>list_all (bump_event e gv [p]) es\<close> have "bump_event e gv [p] ev"
      unfolding list_all_iff by blast
    then show "bump_event e gv ps ev" using p by (rule bump_event_mono)
  qed
  ultimately have "trace (snd (bump_package e gv h p w)) = trace w @ es \<and> list_all (bump_event e gv ps) es"
    by simp
  then show "\<exists>es. trace (snd (bump_package e gv h p w)) = trace w @ es
        \<and> list_all (bump_event e gv ps) es" ..
qed

lemma bump_package_views_ok:
  assumes "views_ok e w"
  shows "views_ok e (snd (bump_package e gv h p w))"
proof (cases rule: bump_package_cases [of e gv p h w])
  case skip
  then show ?thesis using assms by simp
next
  case (update_fail err w1)
  from changePackageOptions_two_frame(1,2) [OF update_fail(2)]
  obtain es where "packagesToRelease w1 = packagesToRelease w" "trace w1 = trace w @ es"
    "list_all (\<lambda>ev. is_write ev \<and> written_path ev = Some (packageFName p)) es"
    by blast
  then have "views_ok e w1"
    by (intro views_ok_write [OF assms, of w1 es]) (simp_all add: list_all_iff is_write_not_view)
  then show ?thesis by (simp add: update_fail(3))
next
  case (checked x w1)
  from changePackageOptions_two_frame(1,2) [OF checked(2)]
  obtain es where "packagesToRelease w1 = packagesToRelease w" "trace w1 = trace w @ es"
    "list_all (\<lambda>ev. is_write ev \<and> written_path ev = Some (packageFName p)) es"
    by blast
  then have "views_ok e w1"
    by (intro views_ok_write [OF assms, of w1 es]) (simp_all add: list_all_iff is_write_not_view)
  then show ?thesis by (simp add: checked(3) views_ok_registry_check)
qed

lemma bump_all_views_ok:
  "views_ok e w \<Longrightarrow> views_ok e (snd (Promise_all (bump_package e gv h) ps w))"
proof -
  have "views_ok e w \<longrightarrow> views_ok e (snd (Promise_all (bump_package e gv h) ps w))"
  proof (rule Promise_all_rel [where R = "\<lambda>w w'. views_ok e w \<longrightarrow> views_ok e w'"])
    show "views_ok e w \<longrightarrow> views_ok e w" for w :: world by simp
    show "views_ok e w1 \<longrightarrow> views_ok e w3"
      if "views_ok e w1 \<longrightarrow> views_ok e w2" "views_ok e w2 \<longrightarrow> views_ok e w3"
      for w1 w2 w3 :: world
      using that by simp
    show "views_ok e w \<longrightarrow> views_ok e (snd (bump_package e gv h x w))" for x w
      by (simp add: bump_package_views_ok)
  qed
  then show "views_ok e w \<Longrightarrow> views_ok e (snd (Promise_all (bump_package e gv h) ps w))"
    by simp
qed

lemma bump_package_distinct:
  assumes "distinct (Map_keys (packagesToRelease w))"
  shows "distinct (Map_keys (packagesToRelease (snd (bump_package e gv h p w))))"
proof (cases rule: bump_package_cases [of e gv p h w])
  case skip
  then show ?thesis using assms by simp
next
  case (update_fail err w1)
  then show ?thesis
    using assms changePackageOptions_two_frame(1) [OF update_fail(2)] by simp
next
  case (checked x w1)
  then show ?thesis
    using assms changePackageOptions_two_frame(1) [OF checked(2)]
    by (simp add: registry_check_keys)
qed

lemma bump_all_distinct:
  "distinct (Map_keys (packagesToRelease w))
    \<Longrightarrow> distinct (Map_keys (packagesToRelease (snd (Promise_all (bump_package e gv h) ps w))))"
proof -
  let ?D = "\<lambda>w. distinct (Map_keys (packagesToRelease w))"
  have "?D w \<longrightarrow> ?D (snd (Promise_all (bump_package e gv h) ps w))"
  proof (rule Promise_all_rel [where R = "\<lambda>w w'. ?D w \<longrightarrow> ?D w'"])
    show "?D w \<longrightarrow> ?D w" for w :: world by simp
    show "?D w1 \<longrightarrow> ?D w3" if "?D w1 \<longrightarrow> ?D w2" "?D w2 \<longrightarrow> ?D w3"
      for w1 w2 w3 :: world
      using that by simp
    show "?D w \<longrightarrow> ?D (snd (bump_package e gv h x w))" for x w
      by (simp add: bump_package_distinct)
  qed
  then show "?D w \<Longrightarrow> ?D (snd (Promise_all (bump_package e gv h) ps w))"
    by simp
qed

lemma changePackageOptions_two_views:
  assumes "changePackageOptions e p [(''version'', a), (''gitHead'', b)] w = (r, w1)"
  shows "view_call k \<in> set (trace w1) \<longleftrightarrow> view_call k \<in> set (trace w)"
proof -
  from changePackageOptions_two_frame(2) [OF assms]
  obtain es where es: "trace w1 = trace w @ es"
    "list_all (\<lambda>ev. is_write ev \<and> written_path ev = Some (packageFName p)) es"
    by blast
  have "view_call k \<notin> set es"
  proof
    assume "view_call k \<in> set es"
    with es(2) have "is_write (view_call k)" unfolding list_all_iff by blast
    then show False by (simp add: view_call_def)
  qed
  then show ?thesis by (simp add: es(1))
qed

lemma bump_package_other_failure:
  assumes new: "view_call k \<in> set (trace (snd (bump_package e gv h p w)))"
      "view_call k \<notin> set (trace w)"
    and out: "view_outcome e k = OtherFailure"
  shows "isl (fst (bump_package e gv h p w))"
proof (cases rule: bump_package_cases [of e gv p h w])
  case skip
  with new show ?thesis by simp
next
  case (update_fail err w1)
  then show ?thesis by simp
next
  case (checked x w1)
  have "view_call k \<notin> set (trace w1)"
    using changePackageOptions_two_views [OF checked(2)] new(2) by simp
  with new(1) have "k = pkgFullName p (new_version e gv p)"
    by (simp add: checked(3) registry_check_frame)
  with out show ?thesis
    by (simp add: checked(3) registry_check_failure)
qed

lemma bump_all_other_failure:
  assumes "view_call k \<in> set (trace (snd (Promise_all (bump_package e gv h) ps w)))"
      "view_call k \<notin> set (trace w)"
    and out: "view_outcome e k = OtherFailure"
  shows "isl (fst (Promise_all (bump_package e gv h) ps w))"
  using assms(1,2)
proof (induction ps arbitrary: w)
  case Nil
  then show ?case by simp
next
  case (Cons p ps)
  let ?w1 = "snd (bump_package e gv h p w)"
  show ?case
  proof (cases "view_call k \<in> set (trace ?w1)")
    case True
    from bump_package_other_failure [OF True Cons.prems(2) out]
    show ?thesis
      by (auto simp: Promise_all_fst_Cons simp del: Promise_all.simps split: sum.splits)
  next
    case False
    have "view_call k \<in> set (trace (snd (Promise_all (bump_package e gv h) ps ?w1)))"
      using Cons.prems(1) by (simp only: Promise_all_snd_Cons)
    then have "isl (fst (Promise_all (bump_package e gv h) ps ?w1))"
      using False by (rule Cons.IH)
    then show ?thesis
      by (auto simp: Promise_all_fst_Cons simp del: Promise_all.simps split: sum.splits)
  qed
qed

text \<open>Closed forms of the steps that only spawn processes.\<close>

lemma publish_step_eq:
  "publish_step e ps w =
    (if exit_code e ''npm'' [''run'', ''postpublish''] \<noteq> 0
     then Inl (ExecPipeError ''npm'' [''run'', ''postpublish''])
     else if exit_code e ''npm'' (publish_args ps) \<noteq> 0
     then Inl (ExecPipeError ''npm'' (publish_args ps))
     else Inr (),
     w\<lparr>trace := trace w @ [publish_call ps, postpublish_call]\<rparr>)"
  by (simp add: publish_step_def execPipe_eq publish_call_def postpublish_call_def)

lemma Promise_all_execPipe:
  "Promise_all (\<lambda>x. execPipe e c (f x)) xs w =
    ((case find (\<lambda>x. exit_code e c (f x) \<noteq> 0) xs of
        None \<Rightarrow> Inr ()
      | Some x \<Rightarrow> Inl (ExecPipeError c (f x))),
     w\<lparr>trace := trace w @ map (\<lambda>x. Spawn c (f x)) xs\<rparr>)"
  by (induction xs arbitrary: w) (simp_all add: execPipe_eq)

lemma tag_promotion_eq:
  "tag_promotion e w =
    ((case find (\<lambda>k. exit_code e ''npm'' (dist_tag_args k) \<noteq> 0)
            (sort (Map_keys (packagesToRelease w))) of
        None \<Rightarrow> Inr ()
      | Some k \<Rightarrow> Inl (ExecPipeError ''npm'' (dist_tag_args k))),
     w\<lparr>trace := trace w @
          map (\<lambda>k. Spawn ''npm'' (dist_tag_args k)) (sort (Map_keys (packagesToRelease w)))\<rparr>)"
  by (simp add: tag_promotion_def Promise_all_execPipe Let_def)

lemma try_body_not_ci:
  "arg_type e \<noteq> Some ''ci'' \<Longrightarrow> try_body e ps gv h w = (Inl ConfigError, w)"
  by (simp add: try_body_def)

lemma try_body_ci_cases:
  assumes ci: "arg_type e = Some ''ci''"
  obtains
    (bump_fail) err wb where
      "Promise_all (bump_package e gv h) ps w = (Inl err, wb)"
      "try_body e ps gv h w = (Inl err, wb)"
  | (prepublish_fail) wb where
      "Promise_all (bump_package e gv h) ps w = (Inr (), wb)"
      "exit_code e ''npm'' [''run'', ''prepublishOnly''] \<noteq> 0"
      "try_body e ps gv h w =
         (Inl (ExecPipeError ''npm'' [''run'', ''prepublishOnly'']),
          wb\<lparr>trace := trace wb @ [prepublish_call]\<rparr>)"
  | (publish_fail) wb where
      "Promise_all (bump_package e gv h) ps w = (Inr (), wb)"
      "exit_code e ''npm'' [''run'', ''prepublishOnly''] = 0"
      "exit_code e ''npm'' (publish_args ps) \<noteq> 0
         \<or> exit_code e ''npm'' [''run'', ''postpublish''] \<noteq> 0"
      "try_body e ps gv h w =
         (Inl (if exit_code e ''npm'' [''run'', ''postpublish''] \<noteq> 0
               then ExecPipeError ''npm'' [''run'', ''postpublish'']
               else ExecPipeError ''npm'' (publish_args ps)),
          wb\<lparr>trace := trace wb @ [prepublish_call, publish_call ps, postpublish_call]\<rparr>)"
  | (published) wb where
      "Promise_all (bump_package e gv h) ps w = (Inr (), wb)"
      "exit_code e ''npm'' [''run'', ''prepublishOnly''] = 0"
      "exit_code e ''npm'' (publish_args ps) = 0"
      "exit_code e ''npm'' [''run'', ''postpublish''] = 0"
      "try_body e ps gv h w =
         ((case find (\<lambda>k. exit_code e ''npm'' (dist_tag_args k) \<noteq> 0)
                 (sort (Map_keys (packagesToRelease wb))) of
             None \<Rightarrow> Inr ()
           | Some k \<Rightarrow> Inl (ExecPipeError ''npm'' (dist_tag_args k))),
          wb\<lparr>trace := trace wb @ [prepublish_call, publish_call ps, postpublish_call]
               @ map (\<lambda>k. Spawn ''npm'' (dist_tag_args k))
                   (sort (Map_keys (packagesToRelease wb)))\<rparr>)"
proof -
  obtain rb wb where b: "Promise_all (bump_package e gv h) ps w = (rb, wb)"
    by (cases "Promise_all (bump_package e gv h) ps w")
  show ?thesis
  proof (cases rb)
    case (Inl err)
    with b ci show ?thesis using bump_fail by (simp add: try_body_def ci_case_def)
  next
    case (Inr u)
    with b have b': "Promise_all (bump_package e gv h) ps w = (Inr (), wb)" by simp
    show ?thesis
    proof (cases "exit_code e ''npm'' [''run'', ''prepublishOnly''] \<noteq> 0")
      case True
      show ?thesis
        by (rule prepublish_fail [OF b' True])
           (simp add: try_body_def ci_case_def submit_def ci b' execPipe_eq True prepublish_call_def)
    next
      case pre: False
      show ?thesis
      proof (cases "exit_code e ''npm'' (publish_args ps) \<noteq> 0
         \<or> exit_code e ''npm'' [''run'', ''postpublish''] \<noteq> 0")
        case True
        show ?thesis
          apply (rule publish_fail [OF b' _ True])
          using pre True
           apply (simp_all add: try_body_def ci_case_def submit_def ci b' execPipe_eq publish_step_eq
              prepublish_call_def)
          done
      next
        case False
        show ?thesis
          apply (rule published [OF b'])
          using pre False
             apply (simp_all add: try_body_def ci_case_def submit_def ci b' execPipe_eq publish_step_eq
              prepublish_call_def tag_promotion_eq)
          done
      qed
    qed
  qed
qed

lemma after_discover_ok:
  assumes "git_ok e"
    and "try_body e ps (gitVersion_of e) (gitHead_of e) (w1\<lparr>trace := trace w1 @ git_calls\<rparr>)
           = (r, w4)"
    and "restore e ps w4 = (rr, w5)"
  shows "after_discover e ps w1 =
    ((case rr of Inl err \<Rightarrow> Some err
      | Inr _ \<Rightarrow> (case r of Inl err \<Rightarrow> Some err | Inr _ \<Rightarrow> None)), w5)"
  using assms
  by (simp add: after_discover_def git_eq git_ok_def gitVersion_of_def gitHead_of_def
      git_calls_def split: sum.splits)

lemma restore_package_frame:
  assumes "restore_package e p w = (r, w')"
  shows "packagesToRelease w' = packagesToRelease w"
    and "\<exists>es. trace w' = trace w @ es
           \<and> list_all (\<lambda>ev. is_write ev \<and> written_path ev = Some (packageFName p)) es"
    and "f \<noteq> packageFName p \<Longrightarrow> disk w' f = disk w f"
proof -
  obtain r0 where c: "changePackageOptions e p [(''version'', version p), (''gitHead'', gitHead p)] w
      = (r0, w')"
    using assms by (auto simp: restore_package_def split: prod.splits sum.splits)
  show "packagesToRelease w' = packagesToRelease w"
    by (rule changePackageOptions_two_frame(1) [OF c])
  show "\<exists>es. trace w' = trace w @ es
           \<and> list_all (\<lambda>ev. is_write ev \<and> written_path ev = Some (packageFName p)) es"
    by (rule changePackageOptions_two_frame(2) [OF c])
  show "disk w' f = disk w f" if "f \<noteq> packageFName p"
    by (rule changePackageOptions_two_frame(3) [OF c that])
qed

lemma restore_trace:
  "\<exists>es. trace (snd (restore e ps w)) = trace w @ es \<and> list_all is_write es"
  unfolding restore_def
proof (rule Promise_all_rel [where R = "\<lambda>w w'. \<exists>es. trace w' = trace w @ es
        \<and> list_all is_write es"])
  show "\<exists>es. trace w = trace w @ es \<and> list_all is_write es" for w :: world
    by (rule exI [of _ "[]"]) simp
next
  fix w1 w2 w3 :: world
  assume "\<exists>es. trace w2 = trace w1 @ es \<and> list_all is_write es"
    and "\<exists>es. trace w3 = trace w2 @ es \<and> list_all is_write es"
  then obtain es es' where "trace w2 = trace w1 @ es" "list_all is_write es"
    "trace w3 = trace w2 @ es'" "list_all is_write es'"
    by blast
  then have "trace w3 = trace w1 @ (es @ es') \<and> list_all is_write (es @ es')"
    by simp
  then show "\<exists>es. trace w3 = trace w1 @ es \<and> list_all is_write es" ..
next
  fix p w
  obtain r w' where r: "restore_package e p w = (r, w')" by (cases "restore_package e p w")
  from restore_package_frame(2) [OF r]
  obtain es where "trace w' = trace w @ es"
    "list_all (\<lambda>ev. is_write ev \<and> written_path ev = Some (packageFName p)) es"
    by blast
  then have "trace (snd (restore_package e p w)) = trace w @ es \<and> list_all is_write es"
    by (simp add: r list_all_iff)
  then show "\<exists>es. trace (snd (restore_package e p w)) = trace w @ es \<and> list_all is_write es" ..
qed

lemma restore_packagesToRelease:
  "packagesToRelease (snd (restore e ps w)) = packagesToRelease w"
  unfolding restore_def
proof (rule Promise_all_rel [where R = "\<lambda>w w'. packagesToRelease w' = packagesToRelease w"])
  show "packagesToRelease (snd (restore_package e p w)) = packagesToRelease w" for p w
    using restore_package_frame(1) [of e p w] by (cases "restore_package e p w") simp
qed simp_all



lemma release_cases:
  obtains
    (discover_fail) err where
      "fst (discover e (initial_world d)) = Inl err"
      "release e (initial_world d) =
         (Some err, \<lparr>disk = d, trace = take 1 startup_calls, packagesToRelease = []\<rparr>)"
  | (describe_fail) err where
      "\<not> git_ok e"
      "release e (initial_world d) =
         (Some err, \<lparr>disk = d, trace = take 2 startup_calls, packagesToRelease = []\<rparr>)"
  | (rev_parse_fail) err where
      "\<not> git_ok e"
      "release e (initial_world d) =
         (Some err, \<lparr>disk = d, trace = startup_calls, packagesToRelease = []\<rparr>)"
  | (started) ps r w4 rr w5 where
      "fst (discover e (initial_world d)) = Inr ps" "git_ok e"
      "try_body e ps (gitVersion_of e) (gitHead_of e) (after_startup d) = (r, w4)"
      "restore e ps w4 = (rr, w5)"
      "release e (initial_world d) =
         ((case rr of Inl err \<Rightarrow> Some err
           | Inr _ \<Rightarrow> (case r of Inl err \<Rightarrow> Some err | Inr _ \<Rightarrow> None)), w5)"
proof (cases "fst (discover e (initial_world d))")
  case (Inl err)
  then have "release e (initial_world d) =
         (Some err, \<lparr>disk = d, trace = take 1 startup_calls, packagesToRelease = []\<rparr>)"
    by (simp add: release_def discover_eq initial_world_def startup_calls_def
        split: if_splits query_json.splits)
  with Inl show ?thesis by (rule discover_fail)
next
  case (Inr ps)
  then have disc: "discover e (initial_world d) =
      (Inr ps, \<lparr>disk = d, trace = take 1 startup_calls, packagesToRelease = []\<rparr>)"
    by (simp add: discover_eq initial_world_def startup_calls_def
        split: if_splits query_json.splits)
  let ?w1 = "\<lparr>disk = d, trace = take 1 startup_calls, packagesToRelease = []\<rparr>"
  have rel: "release e (initial_world d) = after_discover e ps ?w1"
    by (simp add: release_def disc)
  show ?thesis
  proof (cases "exit_code e ''git'' [''describe'', ''--always'', ''--tags''] = 0")
    case False
    then have "release e (initial_world d) =
         (Some (GitError (stderr_of e ''git'' [''describe'', ''--always'', ''--tags''])),
          \<lparr>disk = d, trace = take 2 startup_calls, packagesToRelease = []\<rparr>)"
      by (simp add: rel after_discover_def git_eq startup_calls_def)
    moreover from False have "\<not> git_ok e" by (simp add: git_ok_def)
    ultimately show ?thesis using describe_fail by blast
  next
    case d_ok: True
    show ?thesis
    proof (cases "exit_code e ''git'' [''rev-parse'', ''HEAD''] = 0")
      case False
      then have "release e (initial_world d) =
         (Some (GitError (stderr_of e ''git'' [''rev-parse'', ''HEAD''])),
          \<lparr>disk = d, trace = startup_calls, packagesToRelease = []\<rparr>)"
        using d_ok by (simp add: rel after_discover_def git_eq startup_calls_def)
      moreover from False have "\<not> git_ok e" by (simp add: git_ok_def)
      ultimately show ?thesis using rev_parse_fail by blast
    next
      case True
      with d_ok have g: "git_ok e" by (simp add: git_ok_def)
      have w3: "?w1\<lparr>trace := trace ?w1 @ git_calls\<rparr> = after_startup d"
        by (simp add: after_startup_def startup_calls_def git_calls_def)
      obtain r w4 where t:
        "try_body e ps (gitVersion_of e) (gitHead_of e) (after_startup d) = (r, w4)"
        by (cases "try_body e ps (gitVersion_of e) (gitHead_of e) (after_startup d)")
      obtain rr w5 where rs: "restore e ps w4 = (rr, w5)"
        by (cases "restore e ps w4")
      from after_discover_ok [OF g _ rs, of ?w1 r] t w3
      have "release e (initial_world d) =
         ((case rr of Inl err \<Rightarrow> Some err
           | Inr _ \<Rightarrow> (case r of Inl err \<Rightarrow> Some err | Inr _ \<Rightarrow> None)), w5)"
        by (simp add: rel)
      with Inr g t rs show ?thesis by (rule started)
    qed
  qed
qed

subsection \<open>The discovery\<close>




subsection \<open>A run without the mode\<close>






lemmas sample_defs =
  sample_env_def exit_code_def stdout_of_def stderr_of_def query_output_def view_args_def
  dist_tag_args_def publish_args_def keep_pkg_def pkg_a_def pkg_b_def pkg_root_def
  pkg_docs_def initial_world_def sample_disk_def git_ok_def packageFName_def path_join_def




subsection \<open>Runs in mode ci\<close>

lemma try_body_ci:
  assumes ci: "arg_type e = Some ''ci''"
    and b: "Promise_all (bump_package e gv h) ps w = (rb, wb)"
  shows "try_body e ps gv h w =
    (case rb of
       Inl err \<Rightarrow> (Inl err, wb)
     | Inr _ \<Rightarrow>
        ((case try_error e ps wb of Some err \<Rightarrow> Inl err | None \<Rightarrow> Inr ()),
         wb\<lparr>trace := trace wb @ publish_events e ps wb\<rparr>))"
  using ci
proof (cases rule: try_body_ci_cases [where e = e and gv = gv and h = h and ps = ps and w = w])
  case (bump_fail err wb')
  with b have "rb = Inl err" "wb' = wb" by simp_all
  with bump_fail(2) show ?thesis by simp
next
  case (prepublish_fail wb')
  with b have "rb = Inr ()" "wb' = wb" by simp_all
  with prepublish_fail(2,3) show ?thesis by (simp add: publish_events_def try_error_def)
next
  case (publish_fail wb')
  with b have "rb = Inr ()" "wb' = wb" by simp_all
  with publish_fail(2,3,4) show ?thesis by (auto simp: publish_events_def try_error_def)
next
  case (published wb')
  with b have "rb = Inr ()" "wb' = wb" by simp_all
  with published(2,3,4,5) show ?thesis
    by (simp add: publish_events_def try_error_def tag_call_def split: option.splits)
qed

lemma views_ok_after_startup: "views_ok e (after_startup d)"
  by (simp add: views_ok_def after_startup_def startup_calls_def Map_keys_def view_call_def
      view_args_def)

text \<open>A run in mode ci that gets past the start.\<close>

lemma ci_run:
  assumes ci: "arg_type e = Some ''ci''"
    and d: "fst (discover e (initial_world d)) = Inr ps" and g: "git_ok e"
    and vu: "version_updates e ps d = (rb, wb)"
  obtains rr w5 res where
    "restore e ps (wb\<lparr>trace := trace wb @ (if isl rb then [] else publish_events e ps wb)\<rparr>)
       = (rr, w5)"
    "release e (initial_world d) =
       ((case rr of Inl err \<Rightarrow> Some err
         | Inr _ \<Rightarrow> (case rb of Inl err \<Rightarrow> Some err | Inr _ \<Rightarrow> try_error e ps wb)), w5)"
    "trace w5 = trace wb @ (if isl rb then [] else publish_events e ps wb) @ res"
    "list_all is_write res"
    "packagesToRelease w5 = packagesToRelease wb"
proof (cases rule: release_cases [of e d])
  case (discover_fail err)
  with d show ?thesis by simp
next
  case (describe_fail err)
  with g show ?thesis by simp
next
  case (rev_parse_fail err)
  with g show ?thesis by simp
next
  case (started ps' r w4 rr w5)
  from started(1) d have ps: "ps' = ps" by simp
  let ?w4 = "wb\<lparr>trace := trace wb @ (if isl rb then [] else publish_events e ps wb)\<rparr>"
  from try_body_ci [OF ci vu [unfolded version_updates_def]] started(3) ps
  have r: "r = (case rb of Inl err \<Rightarrow> Inl err
                | Inr _ \<Rightarrow> (case try_error e ps wb of Some err \<Rightarrow> Inl err | None \<Rightarrow> Inr ()))"
    and w4: "w4 = ?w4"
    by (auto split: sum.splits)
  from restore_trace [of e ps w4] started(4) ps
  obtain res where res: "trace w5 = trace w4 @ res" "list_all is_write res"
    by auto
  have 1: "restore e ps ?w4 = (rr, w5)"
    using started(4) ps w4 by simp
  have 2: "release e (initial_world d) =
       ((case rr of Inl err \<Rightarrow> Some err
         | Inr _ \<Rightarrow> (case rb of Inl err \<Rightarrow> Some err | Inr _ \<Rightarrow> try_error e ps wb)), w5)"
    by (simp add: started(5) r split: sum.splits option.splits)
  have 3: "trace w5 = trace wb @ (if isl rb then [] else publish_events e ps wb) @ res"
    by (simp add: res(1) w4)
  have 4: "packagesToRelease w5 = packagesToRelease wb"
    using restore_packagesToRelease [of e ps w4] started(4) ps by (simp add: w4)
  from 1 2 3 res(2) 4 show ?thesis by (rule that)
qed

text \<open>Kinds of events.\<close>

lemma suffix_last: "suffix xs ys \<Longrightarrow> xs \<noteq> [] \<Longrightarrow> last ys = last xs"
  by (auto simp: suffix_def)

lemma is_publish_last: "is_publish ev \<Longrightarrow> \<exists>args. ev = Spawn ''npm'' args \<and> last args = ''ci''"
  by (cases ev) (auto dest: suffix_last)

lemma is_publish_publish_call [simp]: "is_publish (publish_call ps)"
  by (simp add: publish_call_def publish_args_def suffix_def)

lemma not_publish [simp]:
  "\<not> is_publish (view_call k)" "\<not> is_publish (tag_call k)"
  "\<not> is_publish prepublish_call" "\<not> is_publish postpublish_call"
proof -
  have *: "\<not> is_publish (Spawn c args)" if "last args \<noteq> ''ci''" for c args
    using is_publish_last [of "Spawn c args"] that by auto
  show "\<not> is_publish (view_call k)" "\<not> is_publish (tag_call k)"
    "\<not> is_publish prepublish_call" "\<not> is_publish postpublish_call"
    unfolding view_call_def view_args_def tag_call_def dist_tag_args_def prepublish_call_def
        postpublish_call_def
    by (rule *; simp)+
qed

lemma startup_kinds:
  assumes "ev \<in> set startup_calls"
  shows "\<not> is_publish ev" "\<not> is_view ev" "\<not> is_write ev" "tag_key ev = None"
    "ev \<noteq> prepublish_call" "ev \<noteq> postpublish_call" "is_spawn ev"
proof -
  have *: "\<not> is_publish (Spawn c args)" if "last args \<noteq> ''ci''" for c args
    using is_publish_last [of "Spawn c args"] that by auto
  from assms have ev: "ev = Spawn ''npm'' [''query'', ''.workspace'', ''--json'']
      \<or> ev = Spawn ''git'' [''describe'', ''--always'', ''--tags'']
      \<or> ev = Spawn ''git'' [''rev-parse'', ''HEAD'']"
    by (simp add: startup_calls_def)
  then show "\<not> is_publish ev"
    by (elim disjE; simp only:; intro *; simp)
  from ev show "\<not> is_view ev" "\<not> is_write ev" "tag_key ev = None"
    "ev \<noteq> prepublish_call" "ev \<noteq> postpublish_call" "is_spawn ev"
    by (auto simp: prepublish_call_def postpublish_call_def view_args_def dist_tag_args_def)
qed

lemma write_kinds:
  assumes "is_write ev"
  shows "\<not> is_publish ev" "\<not> is_view ev" "tag_key ev = None"
    "ev \<noteq> prepublish_call" "ev \<noteq> postpublish_call" "ev \<noteq> publish_call ps"
    "ev \<noteq> tag_call k" "ev \<noteq> view_call k" "\<not> is_spawn ev"
  using assms
  by (cases ev; simp add: prepublish_call_def postpublish_call_def publish_call_def tag_call_def
      view_call_def)+

lemma view_kinds:
  assumes "is_view ev"
  shows "\<not> is_publish ev" "\<not> is_write ev" "tag_key ev = None"
    "ev \<noteq> prepublish_call" "ev \<noteq> postpublish_call" "ev \<noteq> publish_call ps"
    "ev \<noteq> tag_call k" "is_spawn ev"
proof -
  from assms obtain k' where ev: "ev = view_call k'"
    by (cases ev) (auto simp: view_call_def)
  show "\<not> is_publish ev" "\<not> is_write ev" "tag_key ev = None"
    "ev \<noteq> prepublish_call" "ev \<noteq> postpublish_call" "ev \<noteq> tag_call k" "is_spawn ev"
    by (simp_all add: ev)
       (simp_all add: view_call_def view_args_def dist_tag_args_def prepublish_call_def
          postpublish_call_def tag_call_def)
  show "ev \<noteq> publish_call ps"
  proof
    assume "ev = publish_call ps"
    then have "is_publish (view_call k')" by (simp add: ev)
    then show False by simp
  qed
qed

lemma tag_kinds [simp]:
  "tag_key (tag_call k) = Some k" "\<not> is_view (tag_call k)" "\<not> is_write (tag_call k)"
  "tag_call k \<noteq> prepublish_call" "tag_call k \<noteq> postpublish_call"
  "tag_call k \<noteq> publish_call ps" "is_spawn (tag_call k)"
proof -
  show "tag_key (tag_call k) = Some k" "\<not> is_view (tag_call k)" "\<not> is_write (tag_call k)"
    "tag_call k \<noteq> prepublish_call" "tag_call k \<noteq> postpublish_call" "is_spawn (tag_call k)"
    by (simp_all add: tag_call_def dist_tag_args_def view_args_def prepublish_call_def
        postpublish_call_def)
  show "tag_call k \<noteq> publish_call ps"
  proof
    assume "tag_call k = publish_call ps"
    then have "is_publish (tag_call k)" by simp
    then show False by simp
  qed
qed

lemma hook_kinds [simp]:
  "tag_key prepublish_call = None" "tag_key postpublish_call = None"
  "\<not> is_view prepublish_call" "\<not> is_view postpublish_call"
  "\<not> is_write prepublish_call" "\<not> is_write postpublish_call"
  "prepublish_call \<noteq> postpublish_call" "postpublish_call \<noteq> prepublish_call"
  "is_spawn prepublish_call" "is_spawn postpublish_call"
  by (simp_all add: prepublish_call_def postpublish_call_def)

lemma publish_call_kinds [simp]:
  "\<not> is_view (publish_call ps)" "\<not> is_write (publish_call ps)"
  "publish_call ps \<noteq> prepublish_call" "publish_call ps \<noteq> postpublish_call"
  "prepublish_call \<noteq> publish_call ps" "postpublish_call \<noteq> publish_call ps"
  "is_spawn (publish_call ps)"
proof -
  show "\<not> is_write (publish_call ps)" "is_spawn (publish_call ps)"
    by (simp_all add: publish_call_def)
  show "\<not> is_view (publish_call ps)"
    using view_kinds(1) [of "publish_call ps"] by auto
  show "publish_call ps \<noteq> prepublish_call" "prepublish_call \<noteq> publish_call ps"
    using not_publish(3) is_publish_publish_call [of ps] by metis+
  show "publish_call ps \<noteq> postpublish_call" "postpublish_call \<noteq> publish_call ps"
    using not_publish(4) is_publish_publish_call [of ps] by metis+
qed

lemma tag_key_publish_call [simp]: "tag_key (publish_call ps) = None"
proof (cases "tag_key (publish_call ps)")
  case None
  then show ?thesis .
next
  case (Some k)
  then have "publish_args ps = dist_tag_args (publish_args ps ! 2)"
    by (simp add: publish_call_def split: if_splits)
  then have "last (publish_args ps) = ''edge''"
    by (metis dist_tag_args_def last.simps list.distinct(1))
  then show ?thesis by (simp add: publish_args_def)
qed

lemma bump_event_kind: "bump_event e gv ps ev \<Longrightarrow> is_view ev \<or> is_write ev"
  by (auto simp: bump_event_def)

lemma version_updates_facts:
  assumes "version_updates e ps d = (rb, wb)"
  shows "\<exists>bes. trace wb = startup_calls @ bes
           \<and> list_all (bump_event e (gitVersion_of e) ps) bes"
    and "views_ok e wb"
    and "distinct (Map_keys (packagesToRelease wb))"
proof -
  have wb: "wb = snd (Promise_all (bump_package e (gitVersion_of e) (gitHead_of e)) ps
      (after_startup d))"
    using assms by (simp add: version_updates_def)
  show "\<exists>bes. trace wb = startup_calls @ bes
           \<and> list_all (bump_event e (gitVersion_of e) ps) bes"
    using bump_all_trace [of e "gitVersion_of e" "gitHead_of e" ps "after_startup d"]
    by (simp add: wb after_startup_def)
  show "views_ok e wb"
    unfolding wb by (rule bump_all_views_ok) (rule views_ok_after_startup)
  show "distinct (Map_keys (packagesToRelease wb))"
    unfolding wb by (rule bump_all_distinct) (simp add: after_startup_def Map_keys_def)
qed

lemma filter_none: "list_all (\<lambda>x. \<not> P x) xs \<Longrightarrow> filter P xs = []"
  by (induction xs) auto

lemma tag_calls_none: "(\<And>ev. ev \<in> set xs \<Longrightarrow> tag_key ev = None) \<Longrightarrow> tag_calls xs = []"
  unfolding tag_calls_def by (induction xs) simp_all

lemma bump_events_filter:
  assumes "list_all (bump_event e gv ps) bes"
  shows "filter is_publish bes = []" "filter (\<lambda>ev. ev = prepublish_call) bes = []"
    "filter (\<lambda>ev. ev = postpublish_call) bes = []" "tag_calls bes = []"
proof -
  have k: "is_view ev \<or> is_write ev" if "ev \<in> set bes" for ev
    using assms that bump_event_kind unfolding list_all_iff by blast
  show "filter is_publish bes = []"
    by (rule filter_none) (use k view_kinds(1) write_kinds(1) in \<open>auto simp: list_all_iff\<close>)
  show "filter (\<lambda>ev. ev = prepublish_call) bes = []"
    by (rule filter_none) (use k view_kinds(4) write_kinds(4) in \<open>auto simp: list_all_iff\<close>)
  show "filter (\<lambda>ev. ev = postpublish_call) bes = []"
    by (rule filter_none) (use k view_kinds(5) write_kinds(5) in \<open>auto simp: list_all_iff\<close>)
  have "tag_key ev = None" if "ev \<in> set bes" for ev
    using k [OF that] view_kinds(3) write_kinds(3) by blast
  then show "tag_calls bes = []" by (rule tag_calls_none)
qed

lemma writes_filter:
  assumes "list_all is_write res"
  shows "filter is_publish res = []" "filter (\<lambda>ev. ev = prepublish_call) res = []"
    "filter (\<lambda>ev. ev = postpublish_call) res = []" "tag_calls res = []"
proof -
  show "filter is_publish res = []"
    by (rule filter_none) (use assms write_kinds(1) in \<open>auto simp: list_all_iff\<close>)
  show "filter (\<lambda>ev. ev = prepublish_call) res = []"
    by (rule filter_none) (use assms write_kinds(4) in \<open>auto simp: list_all_iff\<close>)
  show "filter (\<lambda>ev. ev = postpublish_call) res = []"
    by (rule filter_none) (use assms write_kinds(5) in \<open>auto simp: list_all_iff\<close>)
  have "tag_key ev = None" if "ev \<in> set res" for ev
    using assms that write_kinds(3) unfolding list_all_iff by blast
  then show "tag_calls res = []" by (rule tag_calls_none)
qed

lemma startup_filter:
  "filter is_publish startup_calls = []" "filter (\<lambda>ev. ev = prepublish_call) startup_calls = []"
  "filter (\<lambda>ev. ev = postpublish_call) startup_calls = []" "tag_calls startup_calls = []"
proof -
  show "filter is_publish startup_calls = []"
    by (rule filter_none) (use startup_kinds(1) in \<open>auto simp: list_all_iff\<close>)
  show "filter (\<lambda>ev. ev = prepublish_call) startup_calls = []"
    by (rule filter_none) (use startup_kinds(5) in \<open>auto simp: list_all_iff\<close>)
  show "filter (\<lambda>ev. ev = postpublish_call) startup_calls = []"
    by (rule filter_none) (use startup_kinds(6) in \<open>auto simp: list_all_iff\<close>)
  have "tag_key ev = None" if "ev \<in> set startup_calls" for ev
    using that by (rule startup_kinds(4))
  then show "tag_calls startup_calls = []" by (rule tag_calls_none)
qed

lemma tag_calls_append: "tag_calls (xs @ ys) = tag_calls xs @ tag_calls ys"
  by (simp add: tag_calls_def List.map_filter_def)

lemma tag_calls_tags: "tag_calls (map tag_call ks) = ks"
  by (induction ks) (simp_all add: tag_calls_def)

lemma tags_filter:
  "filter is_publish (map tag_call ks) = []"
  "filter (\<lambda>ev. ev = prepublish_call) (map tag_call ks) = []"
  "filter (\<lambda>ev. ev = postpublish_call) (map tag_call ks) = []"
  by (induction ks) simp_all

lemma publish_events_filter:
  assumes "exit_code e ''npm'' [''run'', ''prepublishOnly''] = 0"
  shows "filter is_publish (publish_events e ps wb) = [publish_call ps]"
    "filter (\<lambda>ev. ev = prepublish_call) (publish_events e ps wb) = [prepublish_call]"
    "filter (\<lambda>ev. ev = postpublish_call) (publish_events e ps wb) = [postpublish_call]"
    "\<exists>post. publish_events e ps wb = [prepublish_call, publish_call ps, postpublish_call] @ post"
  using assms by (simp_all add: publish_events_def tags_filter)

subsection \<open>The submission\<close>

lemma publish_reached:
  assumes ci: "arg_type e = Some ''ci''"
    and d: "fst (discover e (initial_world d)) = Inr ps" and g: "git_ok e"
    and vu: "fst (version_updates e ps d) = Inr ()"
  obtains wb bes res rr where
    "version_updates e ps d = (Inr (), wb)"
    "trace (snd (release e (initial_world d))) =
       startup_calls @ bes @ publish_events e ps wb @ res"
    "list_all (bump_event e (gitVersion_of e) ps) bes" "list_all is_write res"
    "packagesToRelease (snd (release e (initial_world d))) = packagesToRelease wb"
    "fst (release e (initial_world d)) =
       (case rr of Inl err \<Rightarrow> Some err | Inr _ \<Rightarrow> try_error e ps wb)"
    "rr = fst (restore e ps (wb\<lparr>trace := trace wb @ publish_events e ps wb\<rparr>))"
proof -
  obtain wb where wb: "version_updates e ps d = (Inr (), wb)"
    using vu by (cases "version_updates e ps d") auto
  from version_updates_facts(1) [OF wb]
  obtain bes where bes: "trace wb = startup_calls @ bes"
    "list_all (bump_event e (gitVersion_of e) ps) bes"
    by blast
  from ci d g wb show ?thesis
  proof (cases rule: ci_run)
    case (1 rr w5 res)
    show ?thesis
    proof (rule that [OF wb _ bes(2) 1(4), of rr])
      show "trace (snd (release e (initial_world d))) =
          startup_calls @ bes @ publish_events e ps wb @ res"
        by (simp add: 1(2,3) bes(1))
      show "packagesToRelease (snd (release e (initial_world d))) = packagesToRelease wb"
        by (simp add: 1(2,5))
      show "fst (release e (initial_world d)) =
         (case rr of Inl err \<Rightarrow> Some err | Inr _ \<Rightarrow> try_error e ps wb)"
        by (simp add: 1(2) split: sum.splits)
      show "rr = fst (restore e ps (wb\<lparr>trace := trace wb @ publish_events e ps wb\<rparr>))"
        using 1(1) by simp
    qed
  qed
qed

text \<open>
  C8. In a run in mode \<^verbatim>\<open>ci\<close> whose startup, version updates and pre-publish hook
  succeed, exactly one publish command is spawned and exactly one
  \<^verbatim>\<open>npm run prepublishOnly\<close>; the hook is spawned immediately before the publish command;
  and the publish command is \<^verbatim>\<open>npm\<close> with a \<^verbatim>\<open>--workspace\<close> argument for the location of
  every discovered package, in order, followed by
  \<^verbatim>\<open>publish --no-git-checks --tag ci\<close>.
\<close>

theorem publish_once:
  assumes "arg_type e = Some ''ci''"
    and "fst (discover e (initial_world d)) = Inr ps" and "git_ok e"
    and "fst (version_updates e ps d) = Inr ()"
    and pre: "exit_code e ''npm'' [''run'', ''prepublishOnly''] = 0"
  shows "filter is_publish (trace (snd (release e (initial_world d)))) = [publish_call ps]
    \<and> filter (\<lambda>ev. ev = prepublish_call) (trace (snd (release e (initial_world d))))
         = [prepublish_call]
    \<and> (\<exists>before after. trace (snd (release e (initial_world d)))
           = before @ [prepublish_call, publish_call ps] @ after)
    \<and> publish_call ps =
        Spawn ''npm'' (concat (map (\<lambda>p. [''--workspace'', location p]) ps)
                       @ [''publish'', ''--no-git-checks'', ''--tag'', ''ci''])"
  using assms(1-4)
proof (cases rule: publish_reached)
  case (1 wb bes res rr)
  from publish_events_filter(4) [OF pre, of ps wb]
  obtain post where post:
    "publish_events e ps wb = [prepublish_call, publish_call ps, postpublish_call] @ post"
    by blast
  have "trace (snd (release e (initial_world d)))
      = (startup_calls @ bes) @ [prepublish_call, publish_call ps] @ (postpublish_call # post @ res)"
    by (simp add: 1(2) post)
  then have "\<exists>before after. trace (snd (release e (initial_world d)))
           = before @ [prepublish_call, publish_call ps] @ after"
    by blast
  then show ?thesis
    by (simp add: 1(2) startup_filter bump_events_filter [OF 1(3)] writes_filter [OF 1(4)]
        publish_events_filter [OF pre] publish_call_def publish_args_def)
qed

subsection \<open>The restore, task after task\<close>

lemma manifest_fields_Some_iff:
  "manifest_fields x = Some (a, b) \<longleftrightarrow> (\<exists>m. x = Some (JsonFile m) \<and> m ''version'' = a \<and> m ''gitHead'' = b)"
  by (auto simp: manifest_fields_def split: option.splits file_content.splits)

lemma manifest_fields_None_iff:
  "manifest_fields x \<noteq> None \<longleftrightarrow> (\<exists>m. x = Some (JsonFile m))"
  by (auto simp: manifest_fields_def split: option.splits file_content.splits)

lemma changePackageOptions_two_readable:
  assumes "changePackageOptions e p [(''version'', a), (''gitHead'', b)] w = (r, w')"
    and "manifest_fields (disk w f) \<noteq> None"
  shows "manifest_fields (disk w' f) \<noteq> None"
  using assms
  by (cases rule: changePackageOptions_two_cases [of p w e a b])
     (auto simp: manifest_fields_def)

lemma bump_package_readable:
  assumes "manifest_fields (disk w f) \<noteq> None"
  shows "manifest_fields (disk (snd (bump_package e gv h p w)) f) \<noteq> None"
proof (cases rule: bump_package_cases [of e gv p h w])
  case skip
  then show ?thesis using assms by simp
next
  case (update_fail err w1)
  from changePackageOptions_two_readable [OF update_fail(2) assms]
  show ?thesis by (simp add: update_fail(3))
next
  case (checked x w1)
  from changePackageOptions_two_readable [OF checked(2) assms]
  show ?thesis by (simp add: checked(3) registry_check_frame)
qed

lemma bump_all_readable:
  assumes "manifest_fields (disk w f) \<noteq> None"
  shows "manifest_fields (disk (snd (Promise_all (bump_package e gv h) ps w)) f) \<noteq> None"
proof -
  let ?R = "\<lambda>w. manifest_fields (disk w f) \<noteq> None"
  have "?R w \<longrightarrow> ?R (snd (Promise_all (bump_package e gv h) ps w))"
  proof (rule Promise_all_rel [where R = "\<lambda>w w'. ?R w \<longrightarrow> ?R w'"])
    show "?R w \<longrightarrow> ?R w" for w :: world by simp
    show "?R w1 \<longrightarrow> ?R w3" if "?R w1 \<longrightarrow> ?R w2" "?R w2 \<longrightarrow> ?R w3" for w1 w2 w3 :: world
      using that by simp
    show "?R w \<longrightarrow> ?R (snd (bump_package e gv h x w))" for x w
      using bump_package_readable by blast
  qed
  with assms show ?thesis by simp
qed

text \<open>One restore, when the manifest can be read and the restoring write succeeds.\<close>

lemma restore_package_ok:
  assumes rd: "manifest_fields (disk w (packageFName p)) \<noteq> None"
    and ok: "\<And>m. m ''version'' = version p \<Longrightarrow> m ''gitHead'' = gitHead p
                \<Longrightarrow> write_ok e (packageFName p) m"
  shows "fst (restore_package e p w) = Inr ()"
    and "restored (snd (restore_package e p w)) p"
    and "\<And>f. f \<noteq> packageFName p \<Longrightarrow> disk (snd (restore_package e p w)) f = disk w f"
proof -
  from rd obtain m where m: "disk w (packageFName p) = Some (JsonFile m)"
    using manifest_fields_None_iff by blast
  have w: "write_ok e (packageFName p) (m(''version'' := version p, ''gitHead'' := gitHead p))"
    by (rule ok) simp_all
  show "fst (restore_package e p w) = Inr ()"
    using m w by (simp add: restore_package_def changePackageOptions_two readJson_def)
  show "restored (snd (restore_package e p w)) p"
    using m w
    by (auto simp: restore_package_def changePackageOptions_two readJson_def restored_def
        manifest_fields_def)
  show "disk (snd (restore_package e p w)) f = disk w f" if "f \<noteq> packageFName p" for f
    using m w that
    by (auto simp: restore_package_def changePackageOptions_two readJson_def)
qed

lemma restore_package_readable:
  assumes "manifest_fields (disk w f) \<noteq> None"
  shows "manifest_fields (disk (snd (restore_package e p w)) f) \<noteq> None"
proof -
  obtain r w' where c: "changePackageOptions e p [(''version'', version p), (''gitHead'', gitHead p)] w
      = (r, w')"
    by (cases "changePackageOptions e p [(''version'', version p), (''gitHead'', gitHead p)] w")
  from changePackageOptions_two_readable [OF c assms]
  show ?thesis by (simp add: restore_package_def c split: sum.splits)
qed

lemma readableD: "readable d ps \<Longrightarrow> p \<in> set ps \<Longrightarrow> manifest_fields (d (packageFName p)) \<noteq> None"
  unfolding readable_def list_all_iff by blast

lemma readableI: "(\<And>p. p \<in> set ps \<Longrightarrow> manifest_fields (d (packageFName p)) \<noteq> None) \<Longrightarrow> readable d ps"
  unfolding readable_def list_all_iff by blast

lemma restores_okD:
  "restores_ok e ps \<Longrightarrow> p \<in> set ps \<Longrightarrow> m ''version'' = version p \<Longrightarrow> m ''gitHead'' = gitHead p
     \<Longrightarrow> write_ok e (packageFName p) m"
  unfolding restores_ok_def by blast

lemma restore_all_ok:
  assumes coh: "\<And>p q. p \<in> set ps \<Longrightarrow> q \<in> set ps \<Longrightarrow> packageFName p = packageFName q
                  \<Longrightarrow> version p = version q \<and> gitHead p = gitHead q"
    and ok: "restores_ok e ps"
  shows "set qs \<subseteq> set ps \<Longrightarrow> readable (disk w) ps \<Longrightarrow>
      fst (Promise_all (restore_package e) qs w) = Inr ()
      \<and> (\<forall>p \<in> set ps. restored w p \<or> p \<in> set qs
            \<longrightarrow> restored (snd (Promise_all (restore_package e) qs w)) p)"
proof (induction qs arbitrary: w)
  case Nil
  then show ?case by simp
next
  case (Cons q qs)
  let ?w1 = "snd (restore_package e q w)"
  from Cons.prems have q: "q \<in> set ps" and sub: "set qs \<subseteq> set ps" by simp_all
  have rdq: "manifest_fields (disk w (packageFName q)) \<noteq> None"
    by (rule readableD [OF Cons.prems(2) q])
  have okq: "write_ok e (packageFName q) m"
    if "m ''version'' = version q" "m ''gitHead'' = gitHead q" for m
    by (rule restores_okD [OF ok q that])
  note rq = restore_package_ok [of w q e, OF rdq okq]
  have rd1: "readable (disk ?w1) ps"
    by (rule readableI) (rule restore_package_readable, rule readableD [OF Cons.prems(2)])
  note ih = Cons.IH [OF sub rd1]
  have ih1: "fst (Promise_all (restore_package e) qs ?w1) = Inr ()"
    by (rule conjunct1 [OF ih])
  have ih2: "restored (snd (Promise_all (restore_package e) qs ?w1)) p"
    if "p \<in> set ps" "restored ?w1 p \<or> p \<in> set qs" for p
    using conjunct2 [OF ih, rule_format, OF that(1)] that(2) by simp
  have step: "restored ?w1 p" if p: "p \<in> set ps" and "restored w p \<or> p = q" for p
  proof (cases "packageFName p = packageFName q")
    case True
    from coh [OF p q True] have "version p = version q" "gitHead p = gitHead q" by simp_all
    with rq(2) show ?thesis unfolding restored_def True by simp
  next
    case False
    with that(2) have "restored w p" by auto
    then show ?thesis using rq(3) [of "packageFName p"] False by (simp add: restored_def)
  qed
  have "fst (Promise_all (restore_package e) (q # qs) w) = Inr ()"
    using rq(1) ih1 by (simp only: Promise_all_fst_Cons sum.case)
  moreover have "restored (snd (Promise_all (restore_package e) (q # qs) w)) p"
    if "p \<in> set ps" "restored w p \<or> p \<in> set (q # qs)" for p
  proof -
    from that(2) have "(restored w p \<or> p = q) \<or> p \<in> set qs" by auto
    then have "restored ?w1 p \<or> p \<in> set qs" using step [OF that(1)] by blast
    from ih2 [OF that(1) this] show ?thesis by (simp only: Promise_all_snd_Cons)
  qed
  ultimately show ?case by (intro conjI ballI impI)
qed

lemma consistentD: "consistent d ps \<Longrightarrow> p \<in> set ps
    \<Longrightarrow> manifest_fields (d (packageFName p)) = Some (version p, gitHead p)"
  unfolding consistent_def list_all_iff by blast

lemma consistent_readable: "consistent d ps \<Longrightarrow> readable d ps"
  by (rule readableI) (simp add: consistentD)

lemma restore_ok:
  assumes con: "consistent d ps" and ok: "restores_ok e ps" and rd: "readable (disk w) ps"
  shows "fst (restore e ps w) = Inr ()"
    and "\<And>p. p \<in> set ps \<Longrightarrow> restored (snd (restore e ps w)) p"
proof -
  have coh: "version p = version q \<and> gitHead p = gitHead q"
    if "p \<in> set ps" "q \<in> set ps" "packageFName p = packageFName q" for p q
    using consistentD [OF con that(1)] consistentD [OF con that(2)] that(3) by simp
  have *: "fst (Promise_all (restore_package e) ps w) = Inr ()
      \<and> (\<forall>p \<in> set ps. restored w p \<or> p \<in> set ps
            \<longrightarrow> restored (snd (Promise_all (restore_package e) ps w)) p)"
  proof (rule restore_all_ok [where ps = ps])
    show "version p = version q \<and> gitHead p = gitHead q"
      if "p \<in> set ps" "q \<in> set ps" "packageFName p = packageFName q" for p q
      using that by (rule coh)
  qed (rule ok, simp, rule rd)
  from * show "fst (restore e ps w) = Inr ()"
    by (simp add: restore_def)
  from * show "restored (snd (restore e ps w)) p" if "p \<in> set ps" for p
    using that by (simp add: restore_def)
qed

subsection \<open>The post-publish hook\<close>

lemmas eval_defs =
  version_updates_def bump_package_def changePackageOptions_two readJson_def registry_check_eq
  view_outcome_def new_version_def pkgFullName_def after_startup_def gitVersion_of_def
  gitHead_of_def trim_def is_space_def view_call_def Map_set_def Map_keys_def
  sample_defs Let_def

lemma sample_version_updates:
  "fst (version_updates sample_env [pkg_a, pkg_b] sample_disk) = Inr ()"
  by (simp add: eval_defs)

lemma sample_keys:
  "Map_keys (packagesToRelease (snd (version_updates sample_env [pkg_a, pkg_b] sample_disk)))
     = [''@ygg.tools/a@1.0.1-git.v1'']"
  by (simp add: eval_defs)

lemma sample_run:
  "fst (release sample_env (initial_world sample_disk)) = None"
  "spawns (trace (snd (release sample_env (initial_world sample_disk)))) =
     startup_calls @
     [view_call ''@ygg.tools/a@1.0.1-git.v1'', view_call ''@ygg.tools/b@2.0.1-git.v1'',
      prepublish_call, publish_call [pkg_a, pkg_b], postpublish_call,
      tag_call ''@ygg.tools/a@1.0.1-git.v1'']"
  by (simp_all add: release_def discover_eq after_discover_def git_eq try_body_def ci_case_def submit_def
      Promise_all_execPipe execPipe_eq publish_step_eq tag_promotion_eq restore_def
      restore_package_def spawns_def startup_calls_def prepublish_call_def postpublish_call_def
      publish_call_def tag_call_def eval_defs)

lemma publish_failure:
  assumes ci: "arg_type e = Some ''ci''"
    and d: "fst (discover e (initial_world d)) = Inr ps" and g: "git_ok e"
    and vu: "fst (version_updates e ps d) = Inr ()"
    and pre: "exit_code e ''npm'' [''run'', ''prepublishOnly''] = 0"
  shows "filter (\<lambda>ev. ev = postpublish_call) (trace (snd (release e (initial_world d))))
           = [postpublish_call]"
    and "\<exists>before after. trace (snd (release e (initial_world d)))
           = before @ [publish_call ps, postpublish_call] @ after"
    and "exit_code e ''npm'' (publish_args ps) \<noteq> 0 \<Longrightarrow> fst (release e (initial_world d)) \<noteq> None"
    and "exit_code e ''npm'' (publish_args ps) \<noteq> 0
         \<Longrightarrow> exit_code e ''npm'' [''run'', ''postpublish''] = 0
         \<Longrightarrow> consistent d ps \<Longrightarrow> restores_ok e ps
         \<Longrightarrow> fst (release e (initial_world d)) = Some (ExecPipeError ''npm'' (publish_args ps))"
    and "exit_code e ''npm'' [''run'', ''postpublish''] \<noteq> 0
         \<Longrightarrow> consistent d ps \<Longrightarrow> restores_ok e ps
         \<Longrightarrow> fst (release e (initial_world d)) = Some (ExecPipeError ''npm'' [''run'', ''postpublish''])"
proof -
  from ci d g vu obtain wb bes res rr where run:
    "version_updates e ps d = (Inr (), wb)"
    "trace (snd (release e (initial_world d))) =
       startup_calls @ bes @ publish_events e ps wb @ res"
    "list_all (bump_event e (gitVersion_of e) ps) bes" "list_all is_write res"
    "fst (release e (initial_world d)) =
       (case rr of Inl err \<Rightarrow> Some err | Inr _ \<Rightarrow> try_error e ps wb)"
    "rr = fst (restore e ps (wb\<lparr>trace := trace wb @ publish_events e ps wb\<rparr>))"
    by (rule publish_reached)
  from publish_events_filter(4) [OF pre, of ps wb]
  obtain post where post:
    "publish_events e ps wb = [prepublish_call, publish_call ps, postpublish_call] @ post"
    by blast
  show "filter (\<lambda>ev. ev = postpublish_call) (trace (snd (release e (initial_world d))))
           = [postpublish_call]"
    by (simp add: run(2) startup_filter bump_events_filter [OF run(3)] writes_filter [OF run(4)]
        publish_events_filter [OF pre])
  have "trace (snd (release e (initial_world d)))
      = (startup_calls @ bes @ [prepublish_call]) @ [publish_call ps, postpublish_call]
          @ (post @ res)"
    by (simp add: run(2) post)
  then show "\<exists>before after. trace (snd (release e (initial_world d)))
           = before @ [publish_call ps, postpublish_call] @ after"
    by blast
  show "fst (release e (initial_world d)) \<noteq> None"
    if "exit_code e ''npm'' (publish_args ps) \<noteq> 0"
    using that pre by (simp add: run(5) try_error_def split: sum.splits)
  have rr: "rr = Inr ()" if con: "consistent d ps" and ok: "restores_ok e ps"
  proof -
    have "readable (disk wb) ps"
    proof (rule readableI)
      fix p assume "p \<in> set ps"
      then have "manifest_fields (disk (after_startup d) (packageFName p)) \<noteq> None"
        using readableD [OF consistent_readable [OF con]] by (simp add: after_startup_def)
      from bump_all_readable [OF this, of e "gitVersion_of e" "gitHead_of e" ps] run(1)
      show "manifest_fields (disk wb (packageFName p)) \<noteq> None"
        by (simp add: version_updates_def)
    qed
    then have "readable (disk (wb\<lparr>trace := trace wb @ publish_events e ps wb\<rparr>)) ps"
      by simp
    from restore_ok(1) [OF con ok this] show ?thesis by (simp add: run(6))
  qed
  show "fst (release e (initial_world d)) = Some (ExecPipeError ''npm'' (publish_args ps))"
    if "exit_code e ''npm'' (publish_args ps) \<noteq> 0"
      "exit_code e ''npm'' [''run'', ''postpublish''] = 0" "consistent d ps" "restores_ok e ps"
    using that(1,2) pre rr [OF that(3,4)] by (simp add: run(5) try_error_def)
  show "fst (release e (initial_world d)) = Some (ExecPipeError ''npm'' [''run'', ''postpublish''])"
    if "exit_code e ''npm'' [''run'', ''postpublish''] \<noteq> 0" "consistent d ps" "restores_ok e ps"
    using that(1) pre rr [OF that(2,3)] by (simp add: run(5) try_error_def)
qed

text \<open>
  C4, as amended. Whenever the publish command is reached (mode \<^verbatim>\<open>ci\<close>, startup,
  version updates and pre-publish hook succeeded), the post-publish hook is spawned
  exactly once, immediately after the publish command, whether the publish succeeds or
  fails. If the publish fails, the process ends with an error; that error is the error
  of the publish provided the post-publish hook succeeds and the restore succeeds (the
  manifests are as the query reported them and the restoring writes succeed).
\<close>

theorem postpublish_once:
  assumes "arg_type e = Some ''ci''"
    and "fst (discover e (initial_world d)) = Inr ps" and "git_ok e"
    and "fst (version_updates e ps d) = Inr ()"
    and "exit_code e ''npm'' [''run'', ''prepublishOnly''] = 0"
  shows "filter (\<lambda>ev. ev = postpublish_call) (trace (snd (release e (initial_world d))))
           = [postpublish_call]
    \<and> (\<exists>before after. trace (snd (release e (initial_world d)))
           = before @ [publish_call ps, postpublish_call] @ after)
    \<and> (exit_code e ''npm'' (publish_args ps) \<noteq> 0
         \<longrightarrow> fst (release e (initial_world d)) \<noteq> None)
    \<and> (exit_code e ''npm'' (publish_args ps) \<noteq> 0
         \<and> exit_code e ''npm'' [''run'', ''postpublish''] = 0
         \<and> consistent d ps \<and> restores_ok e ps
         \<longrightarrow> fst (release e (initial_world d)) = Some (ExecPipeError ''npm'' (publish_args ps)))"
  using publish_failure(1-4) [OF assms] by blast

lemma publish_fails_facts:
  "arg_type publish_fails_env = Some ''ci''"
  "fst (discover publish_fails_env (initial_world sample_disk)) = Inr [pkg_a, pkg_b]"
  "git_ok publish_fails_env"
  "fst (version_updates publish_fails_env [pkg_a, pkg_b] sample_disk) = Inr ()"
  "exit_code publish_fails_env ''npm'' [''run'', ''prepublishOnly''] = 0"
  "exit_code publish_fails_env ''npm'' (publish_args [pkg_a, pkg_b]) \<noteq> 0"
  "exit_code publish_fails_env ''npm'' [''run'', ''postpublish''] = 0"
  "restores_ok publish_fails_env [pkg_a, pkg_b]"
  by (simp_all add: publish_fails_env_def discover_eq restores_ok_def eval_defs)

lemma hook_fails_facts:
  "arg_type hook_fails_env = Some ''ci''"
  "fst (discover hook_fails_env (initial_world sample_disk)) = Inr [pkg_a, pkg_b]"
  "git_ok hook_fails_env"
  "fst (version_updates hook_fails_env [pkg_a, pkg_b] sample_disk) = Inr ()"
  "exit_code hook_fails_env ''npm'' [''run'', ''prepublishOnly''] = 0"
  "exit_code hook_fails_env ''npm'' (publish_args [pkg_a, pkg_b]) \<noteq> 0"
  "exit_code hook_fails_env ''npm'' [''run'', ''postpublish''] \<noteq> 0"
  "restores_ok hook_fails_env [pkg_a, pkg_b]"
  by (simp_all add: hook_fails_env_def discover_eq restores_ok_def eval_defs)

lemma sample_consistent: "consistent sample_disk [pkg_a, pkg_b]"
  by (simp add: consistent_def manifest_fields_def sample_defs)

theorem postpublish_once_witness:
  "exit_code publish_fails_env ''npm'' (publish_args [pkg_a, pkg_b]) \<noteq> 0
   \<and> filter (\<lambda>ev. ev = postpublish_call)
        (trace (snd (release publish_fails_env (initial_world sample_disk)))) = [postpublish_call]
   \<and> fst (release publish_fails_env (initial_world sample_disk))
        = Some (ExecPipeError ''npm'' (publish_args [pkg_a, pkg_b]))"
  using postpublish_once [OF publish_fails_facts(1-5)] publish_fails_facts(6-8) sample_consistent
  by simp

lemma restore_fails_run:
  "exit_code restore_fails_env ''npm'' (publish_args [pkg_a, pkg_b]) \<noteq> 0"
  "exit_code restore_fails_env ''npm'' [''run'', ''postpublish''] = 0"
  "publish_call [pkg_a, pkg_b]
     \<in> set (trace (snd (release restore_fails_env (initial_world sample_disk))))"
  "fst (release restore_fails_env (initial_world sample_disk))
     = Some (FsError ''/w/a/package.json'')"
  by (simp_all add: restore_fails_env_def publish_fails_env_def release_def discover_eq
      after_discover_def git_eq try_body_def ci_case_def submit_def Promise_all_execPipe
      execPipe_eq publish_step_eq tag_promotion_eq restore_def restore_package_def spawns_def
      startup_calls_def prepublish_call_def postpublish_call_def publish_call_def tag_call_def
      eval_defs)

text \<open>
  The claim as stated (the publish error is the one re-raised) fails when the
  post-publish hook fails too, and when a restoring write fails: the error of a
  \<^verbatim>\<open>finally\<close> block replaces the error of the publish, and the process ends with the
  error of the hook, or of the write.
\<close>

theorem publish_error_masked_counterexample:
  "exit_code hook_fails_env ''npm'' (publish_args [pkg_a, pkg_b]) \<noteq> 0
   \<and> publish_call [pkg_a, pkg_b] \<in> set (trace (snd (release hook_fails_env (initial_world sample_disk))))
   \<and> fst (release hook_fails_env (initial_world sample_disk))
        = Some (ExecPipeError ''npm'' [''run'', ''postpublish''])
   \<and> ExecPipeError ''npm'' [''run'', ''postpublish'']
        \<noteq> ExecPipeError ''npm'' (publish_args [pkg_a, pkg_b])
   \<and> exit_code restore_fails_env ''npm'' (publish_args [pkg_a, pkg_b]) \<noteq> 0
   \<and> exit_code restore_fails_env ''npm'' [''run'', ''postpublish''] = 0
   \<and> publish_call [pkg_a, pkg_b]
        \<in> set (trace (snd (release restore_fails_env (initial_world sample_disk))))
   \<and> fst (release restore_fails_env (initial_world sample_disk))
        = Some (FsError ''/w/a/package.json'')"
proof -
  from publish_failure(2) [OF hook_fails_facts(1-5)]
  have "publish_call [pkg_a, pkg_b] \<in> set (trace (snd (release hook_fails_env (initial_world sample_disk))))"
    by auto
  moreover note publish_failure(5) [OF hook_fails_facts(1-5) hook_fails_facts(7) sample_consistent
      hook_fails_facts(8)] hook_fails_facts(6)
  moreover have "ExecPipeError ''npm'' [''run'', ''postpublish'']
        \<noteq> ExecPipeError ''npm'' (publish_args [pkg_a, pkg_b])"
    by (simp add: publish_args_def)
  moreover note restore_fails_run
  ultimately show ?thesis by simp
qed

lemma sample_facts:
  "arg_type sample_env = Some ''ci''"
  "fst (discover sample_env (initial_world sample_disk)) = Inr [pkg_a, pkg_b]"
  "git_ok sample_env"
  "fst (version_updates sample_env [pkg_a, pkg_b] sample_disk) = Inr ()"
  "exit_code sample_env ''npm'' [''run'', ''prepublishOnly''] = 0"
  "exit_code sample_env ''npm'' (publish_args [pkg_a, pkg_b]) = 0"
  "exit_code sample_env ''npm'' [''run'', ''postpublish''] = 0"
  "restores_ok sample_env [pkg_a, pkg_b]"
  by (simp_all add: discover_eq restores_ok_def eval_defs)

theorem publish_once_witness:
  "filter is_publish (trace (snd (release sample_env (initial_world sample_disk))))
     = [Spawn ''npm'' [''--workspace'', ''packages/a'', ''--workspace'', ''packages/b'',
                       ''publish'', ''--no-git-checks'', ''--tag'', ''ci'']]
   \<and> filter (\<lambda>ev. ev = prepublish_call) (trace (snd (release sample_env (initial_world sample_disk))))
     = [prepublish_call]"
  using publish_once [OF sample_facts(1-5)]
  by (simp add: publish_call_def pkg_a_def pkg_b_def)

subsection \<open>The tag promotion\<close>

lemma release_shape:
  obtains
    (no_updates)
      "\<And>k. view_call k \<notin> set (trace (snd (release e (initial_world d))))"
      "tag_calls (trace (snd (release e (initial_world d)))) = []"
      "packagesToRelease (snd (release e (initial_world d))) = []"
  | (updates) ps rb wb bes res and rr :: "error + unit" where
      "arg_type e = Some ''ci''" "fst (discover e (initial_world d)) = Inr ps" "git_ok e"
      "version_updates e ps d = (rb, wb)"
      "trace wb = startup_calls @ bes"
      "list_all (bump_event e (gitVersion_of e) ps) bes"
      "trace (snd (release e (initial_world d))) =
         startup_calls @ bes @ (if isl rb then [] else publish_events e ps wb) @ res"
      "list_all is_write res"
      "packagesToRelease (snd (release e (initial_world d))) = packagesToRelease wb"
      "fst (release e (initial_world d)) =
         (case rr of Inl err \<Rightarrow> Some err
          | Inr _ \<Rightarrow> (case rb of Inl err \<Rightarrow> Some err | Inr _ \<Rightarrow> try_error e ps wb))"
proof -
  have early: thesis
    if "release e (initial_world d) =
         (Some err, \<lparr>disk = d, trace = take n startup_calls, packagesToRelease = []\<rparr>)"
    for err n
  proof (rule no_updates)
    have sub: "ev \<in> set startup_calls" if "ev \<in> set (take n startup_calls)" for ev
      using that by (rule in_set_takeD)
    show "view_call k \<notin> set (trace (snd (release e (initial_world d))))" for k
      using startup_kinds(2) [OF sub, of "view_call k"] by (auto simp: that)
    show "tag_calls (trace (snd (release e (initial_world d)))) = []"
      by (simp add: that) (rule tag_calls_none, rule startup_kinds(4), rule sub)
    show "packagesToRelease (snd (release e (initial_world d))) = []"
      by (simp add: that)
  qed
  show ?thesis
  proof (cases rule: release_cases [of e d])
    case (discover_fail err)
    from discover_fail(2) show ?thesis by (rule early)
  next
    case (describe_fail err)
    from describe_fail(2) show ?thesis by (rule early)
  next
    case (rev_parse_fail err)
    then have "release e (initial_world d) =
         (Some err, \<lparr>disk = d, trace = take 3 startup_calls, packagesToRelease = []\<rparr>)"
      by (simp add: startup_calls_def)
    then show ?thesis by (rule early)
  next
    case (started ps r w4 rr w5)
    show ?thesis
    proof (cases "arg_type e = Some ''ci''")
      case False
      from started(3) False have w4: "w4 = after_startup d"
        by (simp add: try_body_not_ci)
      from restore_trace [of e ps w4] started(4)
      obtain res where res: "trace w5 = trace w4 @ res" "list_all is_write res"
        by auto
      have tr: "trace (snd (release e (initial_world d))) = startup_calls @ res"
        by (simp add: started(5) res(1) w4 after_startup_def)
      show ?thesis
      proof (rule no_updates)
        show "view_call k \<notin> set (trace (snd (release e (initial_world d))))" for k
        proof
          assume "view_call k \<in> set (trace (snd (release e (initial_world d))))"
          then have "view_call k \<in> set startup_calls \<or> view_call k \<in> set res"
            by (simp add: tr)
          then show False
          proof
            assume "view_call k \<in> set startup_calls"
            from startup_kinds(2) [OF this] show False by simp
          next
            assume "view_call k \<in> set res"
            with res(2) have "is_write (view_call k)" unfolding list_all_iff by blast
            then show False by (simp add: view_call_def)
          qed
        qed
        show "tag_calls (trace (snd (release e (initial_world d)))) = []"
          by (simp add: tr tag_calls_append startup_filter writes_filter [OF res(2)])
        show "packagesToRelease (snd (release e (initial_world d))) = []"
          using restore_packagesToRelease [of e ps w4] started(4)
          by (simp add: started(5) w4 after_startup_def)
      qed
    next
      case ci: True
      obtain rb wb where vu: "version_updates e ps d = (rb, wb)"
        by (cases "version_updates e ps d")
      from version_updates_facts(1) [OF vu]
      obtain bes where bes: "trace wb = startup_calls @ bes"
        "list_all (bump_event e (gitVersion_of e) ps) bes"
        by blast
      from ci started(1,2) vu show ?thesis
      proof (cases rule: ci_run)
        case (1 rr' w5' res)
        show ?thesis
        proof (rule updates [OF ci started(1,2) vu bes _ 1(4), of rr'])
          show "trace (snd (release e (initial_world d))) =
             startup_calls @ bes @ (if isl rb then [] else publish_events e ps wb) @ res"
            by (simp add: 1(2,3) bes(1))
          show "packagesToRelease (snd (release e (initial_world d))) = packagesToRelease wb"
            by (simp add: 1(2,5))
          show "fst (release e (initial_world d)) =
             (case rr' of Inl err \<Rightarrow> Some err
              | Inr _ \<Rightarrow> (case rb of Inl err \<Rightarrow> Some err | Inr _ \<Rightarrow> try_error e ps wb))"
            by (simp add: 1(2))
        qed
      qed
    qed
  qed
qed

lemma sort_distinct_keys:
  fixes ks :: "string list"
  assumes "distinct ks"
  shows "sort ks = sorted_list_of_set (set ks)" "sorted_wrt (<) (sort ks)"
proof -
  show "sort ks = sorted_list_of_set (set ks)"
    using assms by (simp add: sorted_list_of_set_sort_remdups distinct_remdups_id)
  show "sorted_wrt (<) (sort ks)"
    using assms by (simp add: strict_sorted_iff)
qed

lemma tag_calls_Nil [simp]: "tag_calls [] = []"
  by (simp add: tag_calls_def)

lemma tag_calls_publish_events:
  "tag_calls (publish_events e ps wb) = []
   \<or> tag_calls (publish_events e ps wb) = sort (Map_keys (packagesToRelease wb))"
  by (simp add: publish_events_def tag_calls_def tag_calls_tags [unfolded tag_calls_def])

lemma tag_calls_publish_events_ok:
  assumes "exit_code e ''npm'' [''run'', ''prepublishOnly''] = 0"
    "exit_code e ''npm'' (publish_args ps) = 0" "exit_code e ''npm'' [''run'', ''postpublish''] = 0"
  shows "tag_calls (publish_events e ps wb) = sort (Map_keys (packagesToRelease wb))"
  using assms
  by (simp add: publish_events_def tag_calls_def tag_calls_tags [unfolded tag_calls_def])

lemma tag_promotion_trace:
  "trace (snd (tag_promotion e w)) =
     trace w @ map tag_call (sort (Map_keys (packagesToRelease w)))"
  by (simp add: tag_promotion_eq tag_call_def)

lemma release_tag_calls:
  "tag_calls (trace (snd (release e (initial_world d)))) = []
   \<or> tag_calls (trace (snd (release e (initial_world d))))
       = sorted_list_of_set (set (Map_keys (packagesToRelease (snd (release e (initial_world d))))))"
proof (cases rule: release_shape [of e d])
  case no_updates
  then show ?thesis by simp
next
  case (updates ps rb wb bes res rr)
  have tc: "tag_calls (trace (snd (release e (initial_world d))))
      = (if isl rb then [] else tag_calls (publish_events e ps wb))"
    by (simp add: updates(7) tag_calls_append startup_filter bump_events_filter [OF updates(6)]
        writes_filter [OF updates(8)])
  from version_updates_facts(3) [OF updates(4)]
  have "sort (Map_keys (packagesToRelease wb))
      = sorted_list_of_set (set (Map_keys (packagesToRelease wb)))"
    by (rule sort_distinct_keys(1))
  with tag_calls_publish_events [of e ps wb] show ?thesis
    by (auto simp: tc updates(9))
qed

lemma release_tag_calls_published:
  assumes "arg_type e = Some ''ci''" "fst (discover e (initial_world d)) = Inr ps" "git_ok e"
    "fst (version_updates e ps d) = Inr ()"
    "exit_code e ''npm'' [''run'', ''prepublishOnly''] = 0"
    "exit_code e ''npm'' (publish_args ps) = 0" "exit_code e ''npm'' [''run'', ''postpublish''] = 0"
  shows "tag_calls (trace (snd (release e (initial_world d))))
       = sorted_list_of_set (set (Map_keys (packagesToRelease (snd (release e (initial_world d))))))"
  using assms(1-4)
proof (cases rule: publish_reached)
  case (1 wb bes res rr)
  have tc: "tag_calls (trace (snd (release e (initial_world d))))
      = tag_calls (publish_events e ps wb)"
    by (simp add: 1(2) tag_calls_append startup_filter bump_events_filter [OF 1(3)]
        writes_filter [OF 1(4)])
  from version_updates_facts(3) [OF 1(1)]
  have "sort (Map_keys (packagesToRelease wb))
      = sorted_list_of_set (set (Map_keys (packagesToRelease wb)))"
    by (rule sort_distinct_keys(1))
  then show ?thesis
    by (simp add: tc 1(5) tag_calls_publish_events_ok [OF assms(5-7)])
qed

text \<open>
  C7. In every run, the keys of the \<^verbatim>\<open>dist-tag add ... edge\<close> calls, in the order in
  which the calls are spawned, are strictly ascending in the lexicographic order of
  strings; when there are such calls they are exactly the sorted list of the set of keys
  of \<^verbatim>\<open>packagesToRelease\<close>, so the order depends on the candidate set alone and two runs
  with the same candidate set spawn the same calls in the same order. A run in which the
  version updates, both hooks and the publish succeed reaches the tag promotion; and the
  tag promotion itself, from any world, spawns one call for each key of the sorted key
  list, in that order.
\<close>

theorem tag_promotion_sorted:
  "sorted_wrt (<) (tag_calls (trace (snd (release e (initial_world d)))))
   \<and> (tag_calls (trace (snd (release e (initial_world d)))) = []
      \<or> tag_calls (trace (snd (release e (initial_world d))))
          = sorted_list_of_set
              (set (Map_keys (packagesToRelease (snd (release e (initial_world d)))))))
   \<and> (arg_type e = Some ''ci'' \<and> fst (discover e (initial_world d)) = Inr ps \<and> git_ok e
       \<and> fst (version_updates e ps d) = Inr ()
       \<and> exit_code e ''npm'' [''run'', ''prepublishOnly''] = 0
       \<and> exit_code e ''npm'' (publish_args ps) = 0
       \<and> exit_code e ''npm'' [''run'', ''postpublish''] = 0
      \<longrightarrow> tag_calls (trace (snd (release e (initial_world d))))
          = sorted_list_of_set
              (set (Map_keys (packagesToRelease (snd (release e (initial_world d)))))))
   \<and> trace (snd (tag_promotion e w)) =
       trace w @ map tag_call (sort (Map_keys (packagesToRelease w)))"
proof -
  have "sorted_wrt (<) (tag_calls (trace (snd (release e (initial_world d)))))"
    using release_tag_calls [of e d] by (elim disjE) simp_all
  then show ?thesis
    using release_tag_calls [of e d] release_tag_calls_published [of e d ps]
      tag_promotion_trace [of e w]
    by blast
qed

theorem tag_promotion_sorted_witness:
  "tag_calls (trace (snd (release sample_env (initial_world sample_disk))))
     = [''@ygg.tools/a@1.0.1-git.v1'']
   \<and> Map_keys (packagesToRelease (snd (release sample_env (initial_world sample_disk))))
     = [''@ygg.tools/a@1.0.1-git.v1'']"
proof -
  from publish_reached [OF sample_facts(1-4)]
  obtain wb where "version_updates sample_env [pkg_a, pkg_b] sample_disk = (Inr (), wb)"
    "packagesToRelease (snd (release sample_env (initial_world sample_disk))) = packagesToRelease wb"
    by metis
  then have k: "Map_keys (packagesToRelease (snd (release sample_env (initial_world sample_disk))))
     = [''@ygg.tools/a@1.0.1-git.v1'']"
    using sample_keys by simp
  from tag_promotion_sorted [of sample_env sample_disk "[pkg_a, pkg_b]"] sample_facts(1-7)
  show ?thesis by (simp add: k)
qed

subsection \<open>The registry query\<close>

lemma views_ok_extend:
  assumes "views_ok e w" "packagesToRelease w' = packagesToRelease w"
    "trace w' = trace w @ es" "\<And>ev. ev \<in> set es \<Longrightarrow> \<not> is_view ev"
  shows "views_ok e w'"
  by (rule views_ok_write [OF assms(1-3)]) (simp add: list_all_iff assms(4))

lemma publish_events_not_view: "ev \<in> set (publish_events e ps wb) \<Longrightarrow> \<not> is_view ev"
  by (auto simp: publish_events_def split: if_splits)

lemma release_views:
  assumes "view_call k \<in> set (trace (snd (release e (initial_world d))))"
  shows "view_outcome e k = NotFound
           \<Longrightarrow> k \<in> set (Map_keys (packagesToRelease (snd (release e (initial_world d)))))"
    and "view_outcome e k = Published
           \<Longrightarrow> k \<notin> set (Map_keys (packagesToRelease (snd (release e (initial_world d)))))"
    and "view_outcome e k = OtherFailure
           \<Longrightarrow> fst (release e (initial_world d)) \<noteq> None
               \<and> filter is_publish (trace (snd (release e (initial_world d)))) = []
               \<and> prepublish_call \<notin> set (trace (snd (release e (initial_world d))))
               \<and> tag_calls (trace (snd (release e (initial_world d)))) = []"
proof -
  let ?W = "snd (release e (initial_world d))"
  from assms have ex: "\<exists>k. view_call k \<in> set (trace ?W)" by blast
  then obtain ps rb wb bes res and rr :: "error + unit" where u:
      "version_updates e ps d = (rb, wb)"
      "trace wb = startup_calls @ bes"
      "list_all (bump_event e (gitVersion_of e) ps) bes"
      "trace ?W = startup_calls @ bes @ (if isl rb then [] else publish_events e ps wb) @ res"
      "list_all is_write res"
      "packagesToRelease ?W = packagesToRelease wb"
      "fst (release e (initial_world d)) =
         (case rr of Inl err \<Rightarrow> Some err
          | Inr _ \<Rightarrow> (case rb of Inl err \<Rightarrow> Some err | Inr _ \<Rightarrow> try_error e ps wb))"
    by (cases rule: release_shape [of e d]) blast+
  have nv: "\<not> is_view ev"
    if "ev \<in> set ((if isl rb then [] else publish_events e ps wb) @ res)" for ev
  proof -
    from that have "ev \<in> set (publish_events e ps wb) \<or> ev \<in> set res"
      by (auto split: if_splits)
    then show ?thesis
    proof
      assume "ev \<in> set (publish_events e ps wb)"
      then show ?thesis by (rule publish_events_not_view)
    next
      assume "ev \<in> set res"
      with u(5) have "is_write ev" unfolding list_all_iff by blast
      then show ?thesis by (rule write_kinds(2))
    qed
  qed
  have ok: "views_ok e ?W"
  proof (rule views_ok_extend [OF version_updates_facts(2) [OF u(1)] u(6)])
    show "trace ?W = trace wb @ ((if isl rb then [] else publish_events e ps wb) @ res)"
      by (simp add: u(4) u(2))
  qed (rule nv)
  show "k \<in> set (Map_keys (packagesToRelease ?W))" if "view_outcome e k = NotFound"
    by (rule views_okD1 [OF ok assms that])
  show "k \<notin> set (Map_keys (packagesToRelease ?W))" if "view_outcome e k = Published"
    using views_okD2 [OF ok, of k] that by auto
  show "fst (release e (initial_world d)) \<noteq> None
        \<and> filter is_publish (trace ?W) = []
        \<and> prepublish_call \<notin> set (trace ?W)
        \<and> tag_calls (trace ?W) = []"
    if out: "view_outcome e k = OtherFailure"
  proof -
    have "view_call k \<in> set (trace wb)"
    proof -
      from assms have "view_call k \<in> set (trace wb)
          \<or> view_call k \<in> set ((if isl rb then [] else publish_events e ps wb) @ res)"
        by (auto simp: u(4) u(2))
      then show ?thesis using nv [of "view_call k"] by auto
    qed
    moreover have "view_call k \<notin> set (trace (after_startup d))"
      using startup_kinds(2) [of "view_call k"] by (auto simp: after_startup_def)
    ultimately have "isl (fst (version_updates e ps d))"
      unfolding version_updates_def
      using bump_all_other_failure [of k e "gitVersion_of e" "gitHead_of e" ps "after_startup d"]
        out u(1)
      by (simp add: version_updates_def)
    then have rb: "isl rb" by (simp add: u(1))
    then obtain err where err: "rb = Inl err" by (cases rb) auto
    have tr: "trace ?W = startup_calls @ bes @ res"
      by (simp add: u(4) rb)
    have "prepublish_call \<notin> set (trace ?W)"
    proof
      assume "prepublish_call \<in> set (trace ?W)"
      then have "filter (\<lambda>ev. ev = prepublish_call) (trace ?W) \<noteq> []"
        by (simp add: filter_empty_conv)
      then show False
        by (simp add: tr startup_filter bump_events_filter [OF u(3)] writes_filter [OF u(5)])
    qed
    moreover have "fst (release e (initial_world d)) \<noteq> None"
      by (simp add: u(7) err split: sum.splits)
    ultimately show ?thesis
      by (simp add: tr startup_filter bump_events_filter [OF u(3)] writes_filter [OF u(5)]
          tag_calls_append)
  qed
qed

text \<open>
  C3. For every registry query \<^verbatim>\<open>npm view name@version name --json\<close> a run makes: if it
  fails with the code \<^verbatim>\<open>E404\<close> in its payload, the key \<^verbatim>\<open>name@version\<close> is in
  \<^verbatim>\<open>packagesToRelease\<close> at the end; if it succeeds, the key is not; if it fails in any
  other way, the process ends with an error and the trace holds no pre-publish hook, no
  publish command and no dist-tag call. The query is made by the version update of a
  package whose new version is truthy, once its manifest is updated; and one check
  schedules, passes or throws according to the outcome of the query.
\<close>

theorem registry_outcome_schedules:
  "(view_call k \<in> set (trace (snd (release e (initial_world d)))) \<longrightarrow>
      (view_outcome e k = NotFound
         \<longrightarrow> k \<in> set (Map_keys (packagesToRelease (snd (release e (initial_world d))))))
    \<and> (view_outcome e k = Published
         \<longrightarrow> k \<notin> set (Map_keys (packagesToRelease (snd (release e (initial_world d))))))
    \<and> (view_outcome e k = OtherFailure
         \<longrightarrow> fst (release e (initial_world d)) \<noteq> None
           \<and> filter is_publish (trace (snd (release e (initial_world d)))) = []
           \<and> prepublish_call \<notin> set (trace (snd (release e (initial_world d))))
           \<and> tag_calls (trace (snd (release e (initial_world d)))) = []))
   \<and> (truthy (new_version e gv p)
       \<and> changePackageOptions e p [(''version'', new_version e gv p), (''gitHead'', Some h)] w
           = (Inr x, w1)
      \<longrightarrow> bump_package e gv h p w = registry_check e p (new_version e gv p) w1)
   \<and> registry_check e p vnew w1 =
       (case view_outcome e (pkgFullName p vnew) of
          Published \<Rightarrow> (Inr (), w1\<lparr>trace := trace w1 @ [view_call (pkgFullName p vnew)]\<rparr>)
        | NotFound \<Rightarrow>
            (Inr (), w1\<lparr>trace := trace w1 @ [view_call (pkgFullName p vnew)],
                        packagesToRelease :=
                          Map_set (packagesToRelease w1) (pkgFullName p vnew) p\<rparr>)
        | OtherFailure \<Rightarrow>
            (Inl (case parse_view e (stdout_of e ''npm'' (view_args (pkgFullName p vnew))) of
                    None \<Rightarrow> SyntaxError
                  | Some _ \<Rightarrow> NpmError (stderr_of e ''npm'' (view_args (pkgFullName p vnew)))),
             w1\<lparr>trace := trace w1 @ [view_call (pkgFullName p vnew)]\<rparr>))"
proof -
  have "bump_package e gv h p w = registry_check e p (new_version e gv p) w1"
    if "truthy (new_version e gv p)"
      "changePackageOptions e p [(''version'', new_version e gv p), (''gitHead'', Some h)] w
           = (Inr x, w1)"
    using that by (simp add: bump_package_def)
  then show ?thesis
    using release_views [of k e d] registry_check_eq [of e p vnew w1] by blast
qed

lemmas run_defs =
  release_def discover_eq after_discover_def git_eq try_body_def ci_case_def submit_def
  Promise_all_execPipe execPipe_eq publish_step_eq tag_promotion_eq restore_def
  restore_package_def spawns_def startup_calls_def prepublish_call_def postpublish_call_def
  publish_call_def tag_call_def eval_defs

lemma sample_views:
  "view_call ''@ygg.tools/a@1.0.1-git.v1''
     \<in> set (trace (snd (release sample_env (initial_world sample_disk))))"
  "view_call ''@ygg.tools/b@2.0.1-git.v1''
     \<in> set (trace (snd (release sample_env (initial_world sample_disk))))"
  "view_outcome sample_env ''@ygg.tools/a@1.0.1-git.v1'' = NotFound"
  "view_outcome sample_env ''@ygg.tools/b@2.0.1-git.v1'' = Published"
  by (simp_all add: run_defs)

lemma registry_error_views:
  "view_call ''@ygg.tools/a@1.0.1-git.v1''
     \<in> set (trace (snd (release registry_error_env (initial_world sample_disk))))"
  "view_outcome registry_error_env ''@ygg.tools/a@1.0.1-git.v1'' = OtherFailure"
  by (simp_all add: registry_error_env_def run_defs)

theorem registry_outcome_schedules_witness:
  "''@ygg.tools/a@1.0.1-git.v1''
     \<in> set (Map_keys (packagesToRelease (snd (release sample_env (initial_world sample_disk)))))
   \<and> ''@ygg.tools/b@2.0.1-git.v1''
     \<notin> set (Map_keys (packagesToRelease (snd (release sample_env (initial_world sample_disk)))))
   \<and> fst (release registry_error_env (initial_world sample_disk)) \<noteq> None
   \<and> filter is_publish (trace (snd (release registry_error_env (initial_world sample_disk)))) = []"
  using
    registry_outcome_schedules [of "''@ygg.tools/a@1.0.1-git.v1''" sample_env sample_disk]
    registry_outcome_schedules [of "''@ygg.tools/b@2.0.1-git.v1''" sample_env sample_disk]
    registry_outcome_schedules [of "''@ygg.tools/a@1.0.1-git.v1''" registry_error_env sample_disk]
    sample_views registry_error_views
  by simp

subsection \<open>Manifest writes\<close>

lemma changePackageOptions_trace:
  "trace (snd (changePackageOptions e p optionsNew w)) =
     trace w @
     (case readJson (packageFName p) w of
        Inl _ \<Rightarrow> []
      | Inr packageJSON \<Rightarrow>
          if \<exists>k \<in> set (Object_keys optionsNew). packageJSON k \<noteq> obj_get optionsNew k
          then [WriteFile (packageFName p) (Object_assign packageJSON optionsNew)]
          else [])"
  by (simp add: changePackageOptions_def findIndex_iff writeJson_def Let_def
      split: sum.splits)

lemma changePackageOptions_same:
  assumes "\<And>packageJSON. readJson (packageFName p) w = Inr packageJSON
             \<Longrightarrow> \<forall>k \<in> set (Object_keys optionsNew). packageJSON k = obj_get optionsNew k"
  shows "snd (changePackageOptions e p optionsNew w) = w"
proof (cases "readJson (packageFName p) w")
  case (Inl err)
  then show ?thesis by (simp add: changePackageOptions_def)
next
  case (Inr packageJSON)
  from assms [OF Inr] Inr show ?thesis
    by (simp add: changePackageOptions_def findIndex_iff)
qed

lemma restore_package_trace:
  "trace (snd (restore_package e p w)) =
     trace w @
     (case readJson (packageFName p) w of
        Inl _ \<Rightarrow> []
      | Inr m \<Rightarrow>
          if m ''version'' \<noteq> version p \<or> m ''gitHead'' \<noteq> gitHead p
          then [WriteFile (packageFName p) (m(''version'' := version p, ''gitHead'' := gitHead p))]
          else [])"
  by (simp add: restore_package_def changePackageOptions_two split: sum.splits)

lemma bump_all_writes:
  assumes "ev \<in> set (drop (length (trace w))
                      (trace (snd (Promise_all (bump_package e gv h) ps w))))"
    and "is_write ev"
  shows "\<exists>q \<in> set ps. truthy (new_version e gv q) \<and> written_path ev = Some (packageFName q)"
proof -
  from bump_all_trace [of e gv h ps w]
  obtain es where es: "trace (snd (Promise_all (bump_package e gv h) ps w)) = trace w @ es"
    "list_all (bump_event e gv ps) es"
    by blast
  from assms(1) have "ev \<in> set es" by (simp add: es(1))
  with es(2) have "bump_event e gv ps ev" unfolding list_all_iff by blast
  with assms(2) show ?thesis
    by (auto simp: bump_event_def view_call_def)
qed

lemma bump_package_falsy:
  "\<not> truthy (new_version e gv p) \<Longrightarrow> bump_package e gv h p w = (Inr (), w)"
  by (simp add: bump_package_def)

text \<open>
  C5. \<open>changePackageOptions\<close> issues a write of the manifest exactly when the manifest
  can be read and one of the proposed properties differs from the one in the file, and
  then it writes the file's object with the proposed properties assigned; otherwise it
  leaves the world untouched. The version update of a package whose increment gives no new
  version does nothing at all; every manifest write of the version updates goes to the
  manifest of a package whose increment gave a new version. The restore of a package
  writes exactly when the version or the revision in the file differs from the package's.
\<close>

theorem write_only_if_different:
  "trace (snd (changePackageOptions e p optionsNew w)) =
     trace w @
     (case readJson (packageFName p) w of
        Inl _ \<Rightarrow> []
      | Inr packageJSON \<Rightarrow>
          if \<exists>k \<in> set (Object_keys optionsNew). packageJSON k \<noteq> obj_get optionsNew k
          then [WriteFile (packageFName p) (Object_assign packageJSON optionsNew)]
          else [])
   \<and> ((\<forall>packageJSON. readJson (packageFName p) w = Inr packageJSON
          \<longrightarrow> (\<forall>k \<in> set (Object_keys optionsNew). packageJSON k = obj_get optionsNew k))
       \<longrightarrow> snd (changePackageOptions e p optionsNew w) = w)
   \<and> (\<not> truthy (new_version e gv p) \<longrightarrow> bump_package e gv h p w = (Inr (), w))
   \<and> (\<forall>ev \<in> set (drop (length (trace w))
                      (trace (snd (Promise_all (bump_package e gv h) ps w)))).
         is_write ev
         \<longrightarrow> (\<exists>q \<in> set ps. truthy (new_version e gv q)
                \<and> written_path ev = Some (packageFName q)))
   \<and> trace (snd (restore_package e p w)) =
       trace w @
       (case readJson (packageFName p) w of
          Inl _ \<Rightarrow> []
        | Inr m \<Rightarrow>
            if m ''version'' \<noteq> version p \<or> m ''gitHead'' \<noteq> gitHead p
            then [WriteFile (packageFName p)
                    (m(''version'' := version p, ''gitHead'' := gitHead p))]
            else [])"
  using changePackageOptions_trace [of e p optionsNew w]
    changePackageOptions_same [of p w optionsNew e]
    bump_package_falsy [of e gv p h w] restore_package_trace [of e p w]
    bump_all_writes [of _ w e gv h ps]
  by blast

lemma sample_read:
  "readJson (packageFName pkg_a) (initial_world sample_disk) = Inr [''version'' \<mapsto> ''1.0.0'']"
  by (simp add: readJson_def sample_defs)

theorem write_only_if_different_witness:
  "bump_package sample_env ''v1'' ''v1'' pkg_docs (initial_world sample_disk)
     = (Inr (), initial_world sample_disk)
   \<and> snd (changePackageOptions sample_env pkg_a [(''version'', Some ''1.0.0''), (''gitHead'', None)]
           (initial_world sample_disk)) = initial_world sample_disk
   \<and> trace (snd (restore_package sample_env pkg_a (initial_world sample_disk))) = []
   \<and> length (trace (snd (changePackageOptions sample_env pkg_a
           [(''version'', Some ''1.0.1-git.v1''), (''gitHead'', Some ''v1'')]
           (initial_world sample_disk)))) = 1"
proof -
  have 1: "\<not> truthy (new_version sample_env ''v1'' pkg_docs)"
    by (simp add: new_version_def sample_env_def pkg_docs_def)
  have 2: "\<forall>packageJSON. readJson (packageFName pkg_a) (initial_world sample_disk) = Inr packageJSON
      \<longrightarrow> (\<forall>k \<in> set (Object_keys [(''version'', Some ''1.0.0''), (''gitHead'', None)]).
            packageJSON k = obj_get [(''version'', Some ''1.0.0''), (''gitHead'', None)] k)"
    by (auto simp: sample_read Object_keys_def obj_get_def)
  from write_only_if_different [of sample_env pkg_docs _ "initial_world sample_disk" "''v1''" "''v1''"] 1
  have a: "bump_package sample_env ''v1'' ''v1'' pkg_docs (initial_world sample_disk)
     = (Inr (), initial_world sample_disk)"
    by blast
  from write_only_if_different [of sample_env pkg_a
      "[(''version'', Some ''1.0.0''), (''gitHead'', None)]" "initial_world sample_disk"] 2
  have b: "snd (changePackageOptions sample_env pkg_a [(''version'', Some ''1.0.0''), (''gitHead'', None)]
           (initial_world sample_disk)) = initial_world sample_disk"
    and c: "trace (snd (restore_package sample_env pkg_a (initial_world sample_disk))) =
       trace (initial_world sample_disk) @
       (case readJson (packageFName pkg_a) (initial_world sample_disk) of
          Inl _ \<Rightarrow> []
        | Inr m \<Rightarrow>
            if m ''version'' \<noteq> version pkg_a \<or> m ''gitHead'' \<noteq> gitHead pkg_a
            then [WriteFile (packageFName pkg_a)
                    (m(''version'' := version pkg_a, ''gitHead'' := gitHead pkg_a))]
            else [])"
    by blast+
  from write_only_if_different [of sample_env pkg_a
      "[(''version'', Some ''1.0.1-git.v1''), (''gitHead'', Some ''v1'')]" "initial_world sample_disk"]
  have d: "trace (snd (changePackageOptions sample_env pkg_a
           [(''version'', Some ''1.0.1-git.v1''), (''gitHead'', Some ''v1'')]
           (initial_world sample_disk))) =
     trace (initial_world sample_disk) @
     (case readJson (packageFName pkg_a) (initial_world sample_disk) of
        Inl _ \<Rightarrow> []
      | Inr packageJSON \<Rightarrow>
          if \<exists>k \<in> set (Object_keys [(''version'', Some ''1.0.1-git.v1''), (''gitHead'', Some ''v1'')]).
               packageJSON k \<noteq> obj_get [(''version'', Some ''1.0.1-git.v1''), (''gitHead'', Some ''v1'')] k
          then [WriteFile (packageFName pkg_a)
                 (Object_assign packageJSON [(''version'', Some ''1.0.1-git.v1''), (''gitHead'', Some ''v1'')])]
          else [])"
    by blast
  have c': "trace (snd (restore_package sample_env pkg_a (initial_world sample_disk))) = []"
    unfolding c by (simp add: sample_read) (simp add: initial_world_def pkg_a_def)
  have d': "length (trace (snd (changePackageOptions sample_env pkg_a
           [(''version'', Some ''1.0.1-git.v1''), (''gitHead'', Some ''v1'')]
           (initial_world sample_disk)))) = 1"
    unfolding d by (simp add: sample_read Object_keys_def obj_get_def) (simp add: initial_world_def)
  from a b c' d' show ?thesis by blast
qed

subsection \<open>The restore against version updates in flight\<close>

text \<open>A task stepped from its start to its end is the function of the script.\<close>

lemma changePackageOptions_steps:
  "changePackageOptions e p optionsNew w =
    (case read_done p optionsNew w of
       (Inl err, w1) \<Rightarrow> (Inl err, w1)
     | (Inr None, w1) \<Rightarrow> (Inr None, w1)
     | (Inr (Some m), w1) \<Rightarrow>
         (case write_done e p m w1 of
            (Inl err, w2) \<Rightarrow> (Inl err, w2)
          | (Inr _, w2) \<Rightarrow>
              (Inr (Some (map (\<lambda>k. (k, pkg_get p k)) (Object_keys optionsNew))), w2)))"
  by (simp add: changePackageOptions_def read_done_def write_done_def writeJson_def Let_def
      split: sum.splits)

lemma registry_check_steps:
  "registry_check e p vnew w = view_done e p vnew (view_spawn p vnew w)"
  by (simp add: registry_check_def view_done_def view_spawn_def exec_eq view_call_def
      split: option.splits)

lemma bump_package_steps:
  "run_task (bump_step e gv h p) (bump_start e gv p) w = as_state (bump_package e gv h p w)"
proof (cases "truthy (new_version e gv p)")
  case False
  then show ?thesis
    by (simp add: run_task_def bump_start_def bump_package_def as_state_def)
next
  case True
  obtain r w1 where rd:
    "read_done p [(''version'', new_version e gv p), (''gitHead'', Some h)] w = (r, w1)"
    by (cases "read_done p [(''version'', new_version e gv p), (''gitHead'', Some h)] w")
  show ?thesis
  proof (cases r)
    case (Inl err)
    with True rd show ?thesis
      by (simp add: run_task_def bump_start_def bump_package_def as_state_def
          changePackageOptions_steps)
  next
    case (Inr mo)
    show ?thesis
    proof (cases mo)
      case None
      with True rd Inr show ?thesis
        by (simp add: run_task_def bump_start_def bump_package_def as_state_def
            changePackageOptions_steps registry_check_steps split: prod.splits sum.splits)
    next
      case (Some m)
      with True rd Inr show ?thesis
        by (simp add: run_task_def bump_start_def bump_package_def as_state_def
            changePackageOptions_steps registry_check_steps split: prod.splits sum.splits)
    qed
  qed
qed

lemma restore_package_steps:
  "run_task (restore_step e p) AtRead w = as_state (restore_package e p w)"
proof -
  obtain r w1 where rd:
    "read_done p [(''version'', version p), (''gitHead'', gitHead p)] w = (r, w1)"
    by (cases "read_done p [(''version'', version p), (''gitHead'', gitHead p)] w")
  show ?thesis
  proof (cases r)
    case (Inl err)
    with rd show ?thesis
      by (simp add: run_task_def restore_package_def as_state_def changePackageOptions_steps)
  next
    case (Inr mo)
    with rd show ?thesis
      by (cases mo)
         (simp_all add: run_task_def restore_package_def as_state_def changePackageOptions_steps
            split: prod.splits sum.splits)
  qed
qed

text \<open>
  When the fan-outs run task after task (every version update has settled before the
  \<^verbatim>\<open>finally\<close> block starts), the restore does its work: if the manifests hold what the
  query reported and the restoring writes succeed, every manifest ends with the version
  and revision it started with, whatever else happened in the run.
\<close>

lemma restore_when_settled:
  assumes d: "fst (discover e (initial_world d)) = Inr ps"
    and con: "consistent d ps" and ok: "restores_ok e ps"
    and p: "p \<in> set ps"
  shows "manifest_fields (disk (snd (release e (initial_world d))) (packageFName p))
           = manifest_fields (d (packageFName p))"
proof -
  have start: "manifest_fields (d (packageFName p)) = Some (version p, gitHead p)"
    by (rule consistentD [OF con p])
  show ?thesis
  proof (cases rule: release_cases [of e d])
    case (discover_fail err)
    with d show ?thesis by simp
  next
    case (describe_fail err)
    then show ?thesis by simp
  next
    case (rev_parse_fail err)
    then show ?thesis by simp
  next
    case (started ps' r w4 rr w5)
    from started(1) d have ps: "ps' = ps" by simp
    have rd: "readable (disk w4) ps"
    proof (cases "arg_type e = Some ''ci''")
      case False
      with started(3) have "w4 = after_startup d" by (simp add: try_body_not_ci)
      then show ?thesis using consistent_readable [OF con] by (simp add: after_startup_def)
    next
      case True
      obtain rb wb where vu: "version_updates e ps d = (rb, wb)"
        by (cases "version_updates e ps d")
      have dw4: "disk w4 = disk wb"
        using try_body_ci [OF True vu [unfolded version_updates_def]] started(3) ps
        by (auto split: sum.splits)
      show ?thesis
      proof (rule readableI)
        fix q assume "q \<in> set ps"
        then have "manifest_fields (disk (after_startup d) (packageFName q)) \<noteq> None"
          using readableD [OF consistent_readable [OF con]] by (simp add: after_startup_def)
        from bump_all_readable [OF this, of e "gitVersion_of e" "gitHead_of e" ps] vu
        show "manifest_fields (disk w4 (packageFName q)) \<noteq> None"
          by (simp add: version_updates_def dw4)
      qed
    qed
    from restore_ok(2) [OF con ok rd p] started(4) ps
    have "restored w5 p" by simp
    then show ?thesis by (simp add: started(5) restored_def start)
  qed
qed

lemma failing_write_restores_ok: "restores_ok failing_write_env [pkg_a, pkg_b]"
  by (simp add: restores_ok_def failing_write_env_def sample_defs)

text \<open>
  In the environment in which the write of the new version of package a fails, a
  schedule that lets the version update of package b settle before the restore starts
  gives the run of the module as modelled task after task, and the manifest of package b
  is restored.
\<close>

lemmas step_defs =
  interleaved_release_def interleaved_try_def
  discover_eq git_eq bump_start_def read_done_def write_done_def
  view_spawn_def view_done_def all_fulfilled_def findIndex_iff Object_keys_def obj_get_def
  manifest_fields_def writes_def new_version_def readJson_def trim_def is_space_def
  pkgFullName_def view_call_def sample_defs Let_def

lemma settled_schedule_agrees:
  "interleaved_release failing_write_env
     [Bump 0, Bump 0, Bump 1, Bump 1, Bump 1, Restore 0, Restore 1, Restore 1]
     (initial_world sample_disk)
   = Some (release failing_write_env (initial_world sample_disk))"
  by (simp add: step_defs failing_write_env_def release_def after_discover_def try_body_def
      ci_case_def submit_def Promise_all_execPipe execPipe_eq publish_step_eq tag_promotion_eq
      restore_def restore_package_def version_updates_def bump_package_def
      changePackageOptions_two registry_check_eq view_outcome_def Map_set_def Map_keys_def)

lemma settled_schedule_restores:
  "manifest_fields
     (disk (snd (release failing_write_env (initial_world sample_disk))) (packageFName pkg_b))
   = Some (Some ''2.0.0'', None)"
  by (simp add: step_defs failing_write_env_def release_def after_discover_def try_body_def
      ci_case_def submit_def Promise_all_execPipe execPipe_eq publish_step_eq tag_promotion_eq
      restore_def restore_package_def version_updates_def bump_package_def
      changePackageOptions_two registry_check_eq view_outcome_def Map_set_def Map_keys_def)

text \<open>
  C1 (every manifest holds its original version and revision when the process ends,
  unless a restoring write failed) does not hold for every run. In the run below the
  write of the new version of package a fails; the fan-out rejects and the restore
  starts while the version update of package b is in flight; the restore of package b
  reads the manifest before the pending write lands, finds nothing to restore and writes
  nothing. The process ends with the error of the failed write, no restoring write having
  failed (the only writes issued are the two of the version updates), and the manifest of
  package b holds the new version and revision.
\<close>

theorem restore_race:
  "map_option fst (interleaved_release failing_write_env race_schedule (initial_world sample_disk))
     = Some (Some (FsError ''/w/a/package.json''))
   \<and> manifest_fields
        (disk (snd (the (interleaved_release failing_write_env race_schedule
                          (initial_world sample_disk))))
           (packageFName pkg_b))
     = Some (Some ''2.0.1-git.v1'', Some ''v1'')
   \<and> manifest_fields (sample_disk (packageFName pkg_b)) = Some (Some ''2.0.0'', None)
   \<and> map written_path
        (writes (trace (snd (the (interleaved_release failing_write_env race_schedule
                                   (initial_world sample_disk))))))
     = [Some ''/w/a/package.json'', Some ''/w/b/package.json'']"
  by (simp add: step_defs race_schedule_def failing_write_env_def)

end
